theory Spec2Isabelle
  imports Main "HOL-Library.Sublist"
begin

section \<open>The data of \<^verbatim>\<open>main.py\<close>\<close>

text \<open>
  \<^verbatim>\<open>main.py\<close> is a batch job around three remote services: the Drive folder
  (\<^verbatim>\<open>files().list\<close>, \<^verbatim>\<open>delete\<close>, \<^verbatim>\<open>get_media\<close>, \<^verbatim>\<open>create\<close>), the YouTube
  data API (\<^verbatim>\<open>channels().list\<close>, \<^verbatim>\<open>playlistItems().list\<close>) and the stream library
  (\<^verbatim>\<open>YouTube(url).streams\<close>, \<^verbatim>\<open>stream.download\<close>). The functions of the file are
  embedded with explicit state: the Drive folder and the local file
  \<^verbatim>\<open>past_videos.json\<close> are the state, every call that leaves the process is
  recorded with its outcome in a trace, and what a remote service answers is
  read from an environment, which sees the whole trace so far (so the same
  call may succeed once and fail later). A Python exception is a value of
  type \<open>exn\<close>; a function that may raise returns \<open>exn option\<close> or a sum.

  Times are naive \<^verbatim>\<open>datetime\<close> values, counted in microseconds (the resolution
  of \<^verbatim>\<open>datetime\<close>) since \<^verbatim>\<open>datetime.min\<close>, the first instant of year 1:
  \<open>createdTime\<close> of a file is the value that \<^verbatim>\<open>fromisoformat(date_str[:-1])\<close>
  yields for the RFC 3339 text Drive returns, a time in UTC with its \<^verbatim>\<open>Z\<close> cut
  off, and \<open>clock\<close> is what \<^verbatim>\<open>datetime.datetime.now()\<close> returns, the local time
  of the machine. The code compares the two as they are. The answer Drive
  gives to a \<^verbatim>\<open>files().list\<close> request is one page of the folder; which files it
  holds is up to the environment. An exception carries the text that \<^verbatim>\<open>str\<close>
  gives for it.
  Building the client objects (\<^verbatim>\<open>get_drive_service\<close>, \<^verbatim>\<open>discovery.build\<close>) and
  writing the local history file are taken to succeed; the catalog and the
  history file hold JSON arrays of strings.
\<close>

type_synonym timestamp = int

datatype exn = HttpError string | OtherError string

record drive_file =
  file_id :: string
  file_name :: string
  createdTime :: timestamp

record playlist_item =
  videoId :: string
  title :: string

record stream =
  itag :: nat
  progressive :: bool
  subtype :: string
  resolution :: string

text \<open>The lines \<^verbatim>\<open>main.py\<close> prints, one constructor for each \<^verbatim>\<open>print\<close>.\<close>

datatype log_line =
    Deleted_video string
  | Error_deleting exn
  | Deleting_old string timestamp
  | Time_now timestamp
  | Catalog_not_found
  | No_channels_found
  | Skipping string
  | Downloaded string
  | Uploaded string
  | Error exn

datatype event =
    Print log_line
  | Now timestamp
  | Drive_list "exn + drive_file list"
  | Drive_delete string "exn option"
  | Drive_find_catalog "exn option"
  | Drive_get_media string "exn + string list"
  | Read_history "string list option"
  | Write_history "string list"
  | Channels_list string "exn + string option"
  | Playlist_items string nat "exn + playlist_item list"
  | Yt_streams string "exn + stream list"
  | Stream_download stream string string "exn option"
  | Drive_upload string string "exn + string \<times> timestamp"
  | Os_remove string "exn option"

record env =
  clock :: "event list \<Rightarrow> timestamp"
  drive_list_result :: "event list \<Rightarrow> drive_file list \<Rightarrow> exn + drive_file list"
  drive_delete_result :: "event list \<Rightarrow> string \<Rightarrow> exn option"
  drive_find_result :: "event list \<Rightarrow> exn option"
  drive_get_media_result :: "event list \<Rightarrow> string \<Rightarrow> exn + string list"
  channels_list_result :: "event list \<Rightarrow> string \<Rightarrow> exn + string option"
  playlist_items_result :: "event list \<Rightarrow> string \<Rightarrow> nat \<Rightarrow> exn + playlist_item list"
  yt_streams_result :: "event list \<Rightarrow> string \<Rightarrow> exn + stream list"
  stream_download_result :: "event list \<Rightarrow> stream \<Rightarrow> string \<Rightarrow> string \<Rightarrow> exn option"
  drive_upload_result :: "event list \<Rightarrow> string \<Rightarrow> string \<Rightarrow> exn + string \<times> timestamp"
  os_remove_result :: "event list \<Rightarrow> string \<Rightarrow> exn option"

record state =
  drive :: "drive_file list"
  past_videos_file :: "string list option"
  trace :: "event list"

definition emit :: "event list \<Rightarrow> state \<Rightarrow> state" where
  "emit evs st = st\<lparr>trace := trace st @ evs\<rparr>"

text \<open>The events of a run: what the trace gained between two states.\<close>

definition events_since :: "state \<Rightarrow> state \<Rightarrow> event list" where
  "events_since st st' = drop (length (trace st)) (trace st')"

definition LAST_VIDEO_N :: nat where
  "LAST_VIDEO_N = 3"

definition OUTPUT_DIR :: string where
  "OUTPUT_DIR = ''videos''"

section \<open>Retention Sweeper\<close>

definition us_per_day :: int where
  "us_per_day = 86400000000"

definition us_per_second :: int where
  "us_per_second = 1000000"

definition us_per_hour :: int where
  "us_per_hour = 3600000000"

text \<open>
  What \<^verbatim>\<open>datetime.datetime.now()\<close> returns at a UTC instant on a machine whose
  local time is UTC plus \<open>utc_offset\<close>: the naive local time.
\<close>

definition local_now :: "int \<Rightarrow> timestamp \<Rightarrow> timestamp" where
  "local_now utc_offset instant = instant + utc_offset"

text \<open>
  The range of \<^verbatim>\<open>datetime\<close> (3652059 days up to the end of year 9999) and the
  largest number of days of a \<^verbatim>\<open>timedelta\<close>.
\<close>

definition DATETIME_MAX :: timestamp where
  "DATETIME_MAX = 3652059 * us_per_day - 1"

definition MAX_DELTA_DAYS :: int where
  "MAX_DELTA_DAYS = 999999999"

text \<open>
  \<^verbatim>\<open>created_time < datetime.datetime.now() - datetime.timedelta(days=days)\<close>,
  the comparison of \<^verbatim>\<open>is_older_than_days\<close> once the clock is read.
\<close>

definition older_than :: "timestamp \<Rightarrow> timestamp \<Rightarrow> int \<Rightarrow> bool" where
  "older_than created_time now days \<longleftrightarrow> created_time < now - days * us_per_day"

text \<open>
  \<^verbatim>\<open>is_older_than_days\<close>: the clock is read first; \<^verbatim>\<open>timedelta(days=days)\<close>
  raises \<^verbatim>\<open>OverflowError\<close> beyond its range, and so does the subtraction when
  the result is no \<^verbatim>\<open>datetime\<close>.
\<close>

definition is_older_than_days ::
    "env \<Rightarrow> state \<Rightarrow> timestamp \<Rightarrow> int \<Rightarrow> state \<times> (exn + bool)" where
  "is_older_than_days e st created_time days =
     (let now = clock e (trace st);
          st1 = emit [Now now] st
      in if MAX_DELTA_DAYS < \<bar>days\<bar>
         then (st1, Inl (OtherError ''OverflowError: days out of range''))
         else if now - days * us_per_day < 0 \<or> DATETIME_MAX < now - days * us_per_day
         then (st1, Inl (OtherError ''OverflowError: date value out of range''))
         else (st1, Inr (older_than created_time now days)))"

text \<open>
  \<^verbatim>\<open>delete_video_from_drive\<close>: an \<^verbatim>\<open>HttpError\<close> of the delete is caught and
  printed, any other exception leaves the function.
\<close>

definition delete_video_from_drive :: "env \<Rightarrow> state \<Rightarrow> string \<Rightarrow> state \<times> exn option" where
  "delete_video_from_drive e st video_id =
     (case drive_delete_result e (trace st) video_id of
        None \<Rightarrow>
          (emit [Drive_delete video_id None, Print (Deleted_video video_id)]
             (st\<lparr>drive := filter (\<lambda>f. file_id f \<noteq> video_id) (drive st)\<rparr>), None)
      | Some (HttpError m) \<Rightarrow>
          (emit [Drive_delete video_id (Some (HttpError m)),
                 Print (Error_deleting (HttpError m))] st, None)
      | Some (OtherError m) \<Rightarrow>
          (emit [Drive_delete video_id (Some (OtherError m))] st, Some (OtherError m)))"

fun delete_loop :: "env \<Rightarrow> int \<Rightarrow> drive_file list \<Rightarrow> state \<Rightarrow> state \<times> exn option" where
  "delete_loop e days [] st = (st, None)"
| "delete_loop e days (item # items) st =
     (case is_older_than_days e st (createdTime item) days of
        (st1, Inl ex) \<Rightarrow> (st1, Some ex)
      | (st1, Inr True) \<Rightarrow>
          (case delete_video_from_drive e
                  (emit [Print (Deleting_old (file_name item) (createdTime item))] st1)
                  (file_id item) of
             (st2, Some ex) \<Rightarrow> (st2, Some ex)
           | (st2, None) \<Rightarrow> delete_loop e days items st2)
      | (st1, Inr False) \<Rightarrow> delete_loop e days items st1)"

text \<open>
  \<^verbatim>\<open>delete_old_videos\<close>: one \<^verbatim>\<open>files().list\<close> request for the folder, with no
  page size and no page token, and the loop over the \<^verbatim>\<open>files\<close> of its answer.
\<close>

definition delete_old_videos :: "env \<Rightarrow> state \<Rightarrow> int \<Rightarrow> state \<times> exn option" where
  "delete_old_videos e st days_to_keep =
     (case drive_list_result e (trace st) (drive st) of
        Inl ex \<Rightarrow> (emit [Drive_list (Inl ex)] st, Some ex)
      | Inr items \<Rightarrow> delete_loop e days_to_keep items (emit [Drive_list (Inr items)] st))"

section \<open>Video Resolver\<close>

datatype resolved = Videos "(string \<times> string) list" | Failure string

definition video_of :: "playlist_item \<Rightarrow> string \<times> string" where
  "video_of it = (''https://www.youtube.com/watch?v='' @ videoId it, title it)"

text \<open>
  The loop \<^verbatim>\<open>for i in range(last_n)\<close> over \<^verbatim>\<open>response["items"][i]\<close>: an index
  beyond the items raises \<^verbatim>\<open>IndexError\<close>.
\<close>

fun videos_loop :: "playlist_item list \<Rightarrow> nat list \<Rightarrow> (string \<times> string) list
    \<Rightarrow> exn + (string \<times> string) list" where
  "videos_loop items [] videos = Inr videos"
| "videos_loop items (i # rest) videos =
     (if i < length items then videos_loop items rest (videos @ [video_of (items ! i)])
      else Inl (OtherError ''list index out of range''))"

text \<open>The two \<^verbatim>\<open>except\<close> clauses of \<^verbatim>\<open>get_latest_video_url\<close>.\<close>

fun resolver_handler :: "exn \<Rightarrow> resolved" where
  "resolver_handler (HttpError m) = Failure (''API Error: '' @ m)"
| "resolver_handler (OtherError m) = Failure (''An unexpected error occurred: '' @ m)"

definition get_latest_video_url :: "env \<Rightarrow> state \<Rightarrow> string \<Rightarrow> nat \<Rightarrow> state \<times> resolved" where
  "get_latest_video_url e st channel_id last_n =
     (if channel_id = [] then (st, Failure ''Could not extract channel identifier from URL'')
      else
        (case channels_list_result e (trace st) channel_id of
           Inl ex \<Rightarrow> (emit [Channels_list channel_id (Inl ex)] st, resolver_handler ex)
         | Inr None \<Rightarrow>
             (emit [Channels_list channel_id (Inr None)] st,
              Failure (''No channel found with ID: '' @ channel_id))
         | Inr (Some uploads_playlist_id) \<Rightarrow>
             (let st1 = emit [Channels_list channel_id (Inr (Some uploads_playlist_id))] st;
                  response = playlist_items_result e (trace st1) uploads_playlist_id last_n;
                  st2 = emit [Playlist_items uploads_playlist_id last_n response] st1
              in case response of
                   Inl ex \<Rightarrow> (st2, resolver_handler ex)
                 | Inr [] \<Rightarrow> (st2, Failure ''Channel has no videos'')
                 | Inr items \<Rightarrow>
                     (case videos_loop items [0..<last_n] [] of
                        Inl ex \<Rightarrow> (st2, resolver_handler ex)
                      | Inr videos \<Rightarrow> (st2, Videos videos)))))"

section \<open>Transfer Pipeline\<close>

text \<open>
  Modelled from the spec: the query operations of the stream library, which is
  not part of the repository. \<^verbatim>\<open>filter\<close> keeps the streams with the given
  attribute values, \<^verbatim>\<open>order_by('resolution')\<close> orders ascending by the number in
  the resolution label (a stable sort), \<^verbatim>\<open>first()\<close> is the first stream or
  \<^verbatim>\<open>None\<close>. Every stream carries a resolution label.
\<close>

definition is_digit :: "char \<Rightarrow> bool" where
  "is_digit c \<longleftrightarrow> c \<in> set ''0123456789''"

definition digit_val :: "char \<Rightarrow> nat" where
  "digit_val c = of_char c - 48"

definition resolution_int :: "string \<Rightarrow> nat" where
  "resolution_int label = foldl (\<lambda>a c. 10 * a + digit_val c) 0 (filter is_digit label)"

definition order_by_resolution :: "stream list \<Rightarrow> stream list" where
  "order_by_resolution streams = sort_key (\<lambda>s. resolution_int (resolution s)) streams"

definition first :: "'a list \<Rightarrow> 'a option" where
  "first xs = (case xs of [] \<Rightarrow> None | x # _ \<Rightarrow> Some x)"

text \<open>\<^verbatim>\<open>filter(progressive=True, file_extension='mp4')\<close>.\<close>

definition progressive_mp4 :: "stream list \<Rightarrow> stream list" where
  "progressive_mp4 available = filter (\<lambda>s. progressive s \<and> subtype s = ''mp4'') available"

text \<open>Lines 120 to 124 of \<^verbatim>\<open>download_video\<close>: the choice of the stream.\<close>

definition select_stream :: "stream list \<Rightarrow> stream option" where
  "select_stream available =
     (let streams = order_by_resolution (progressive_mp4 available)
      in case first (filter (\<lambda>s. resolution s = ''480p'') streams) of
           None \<Rightarrow> first streams
         | Some s \<Rightarrow> Some s)"

text \<open>\<^verbatim>\<open>os.path.join\<close>, \<^verbatim>\<open>os.path.dirname\<close> and \<^verbatim>\<open>os.path.basename\<close> of posixpath.\<close>

definition os_path_join :: "string \<Rightarrow> string \<Rightarrow> string" where
  "os_path_join a b =
     (if b \<noteq> [] \<and> hd b = CHR ''/'' then b
      else if a = [] \<or> last a = CHR ''/'' then a @ b
      else a @ ''/'' @ b)"

definition os_path_basename :: "string \<Rightarrow> string" where
  "os_path_basename p = rev (takeWhile (\<lambda>c. c \<noteq> CHR ''/'') (rev p))"

definition os_path_dirname :: "string \<Rightarrow> string" where
  "os_path_dirname p =
     (let head = rev (dropWhile (\<lambda>c. c \<noteq> CHR ''/'') (rev p))
      in if head \<noteq> [] \<and> \<not> list_all (\<lambda>c. c = CHR ''/'') head
         then rev (dropWhile (\<lambda>c. c = CHR ''/'') (rev head))
         else head)"

text \<open>
  \<^verbatim>\<open>download_video\<close>: with no stream left, \<^verbatim>\<open>stream\<close> is \<^verbatim>\<open>None\<close> and
  \<^verbatim>\<open>stream.download\<close> raises \<^verbatim>\<open>AttributeError\<close>.
\<close>

definition download_video :: "env \<Rightarrow> state \<Rightarrow> string \<Rightarrow> string \<Rightarrow> state \<times> exn option" where
  "download_video e st video_url output_path =
     (case yt_streams_result e (trace st) video_url of
        Inl ex \<Rightarrow> (emit [Yt_streams video_url (Inl ex)] st, Some ex)
      | Inr available \<Rightarrow>
          (let st1 = emit [Yt_streams video_url (Inr available)] st;
               output_dir_path = os_path_dirname output_path;
               name = os_path_basename output_path
           in case select_stream available of
                None \<Rightarrow> (st1, Some (OtherError ''NoneType object has no attribute download''))
              | Some s \<Rightarrow>
                  (let r = stream_download_result e (trace st1) s output_dir_path name
                   in (emit [Stream_download s output_dir_path name r] st1, r))))"

definition upload_file :: "env \<Rightarrow> state \<Rightarrow> string \<Rightarrow> string \<Rightarrow> state \<times> exn option" where
  "upload_file e st file_path name =
     (case drive_upload_result e (trace st) file_path name of
        Inl ex \<Rightarrow> (emit [Drive_upload file_path name (Inl ex)] st, Some ex)
      | Inr (fid, created) \<Rightarrow>
          (emit [Drive_upload file_path name (Inr (fid, created))]
             (st\<lparr>drive := drive st @
                    [\<lparr>file_id = fid, file_name = name, createdTime = created\<rparr>]\<rparr>), None))"

definition os_remove :: "env \<Rightarrow> state \<Rightarrow> string \<Rightarrow> state \<times> exn option" where
  "os_remove e st file_path =
     (let r = os_remove_result e (trace st) file_path
      in (emit [Os_remove file_path r] st, r))"

section \<open>Channel Catalog Loader\<close>

text \<open>
  \<^verbatim>\<open>download_channels_list_from_drive\<close>: the search for the files named
  \<^verbatim>\<open>channels.json\<close> in the folder, then, for the first one found, the chunked
  download into a temporary directory and \<^verbatim>\<open>json.load\<close>, taken together as one
  call that yields the list of channel identifiers or raises (the progress
  lines of the download are not recorded).
\<close>

definition download_channels_list_from_drive ::
    "env \<Rightarrow> state \<Rightarrow> state \<times> (exn + string list option)" where
  "download_channels_list_from_drive e st =
     (case drive_find_result e (trace st) of
        Some ex \<Rightarrow> (emit [Drive_find_catalog (Some ex)] st, Inl ex)
      | None \<Rightarrow>
          (let st1 = emit [Drive_find_catalog None] st
           in case filter (\<lambda>f. file_name f = ''channels.json'') (drive st) of
                [] \<Rightarrow> (emit [Print Catalog_not_found] st1, Inr None)
              | item # _ \<Rightarrow>
                  (let r = drive_get_media_result e (trace st1) (file_id item);
                       st2 = emit [Drive_get_media (file_id item) r] st1
                   in case r of
                        Inl ex \<Rightarrow> (st2, Inl ex)
                      | Inr channels \<Rightarrow> (st2, Inr (Some channels)))))"

section \<open>Sync Driver\<close>

text \<open>
  The body of the inner \<^verbatim>\<open>try\<close> of \<^verbatim>\<open>main\<close> (lines 194 to 202) for one video:
  the new state, the history list and the exception that left the body, if
  one did.
\<close>

definition transfer_video ::
    "env \<Rightarrow> state \<Rightarrow> string list \<Rightarrow> string \<Rightarrow> string \<Rightarrow> state \<times> string list \<times> exn option" where
  "transfer_video e st past_videos video_url video_title =
     (let name = video_title @ ''.mp4'';
          file_path = os_path_join OUTPUT_DIR name
      in case download_video e st video_url file_path of
           (st1, Some ex) \<Rightarrow> (st1, past_videos, Some ex)
         | (st1, None) \<Rightarrow>
             (case upload_file e (emit [Print (Downloaded video_title)] st1) file_path name of
                (st2, Some ex) \<Rightarrow> (st2, past_videos, Some ex)
              | (st2, None) \<Rightarrow>
                  (case os_remove e st2 file_path of
                     (st3, Some ex) \<Rightarrow> (st3, past_videos, Some ex)
                   | (st3, None) \<Rightarrow>
                       (emit [Print (Uploaded video_title)] st3,
                        past_videos @ [video_url], None))))"

text \<open>The loop \<^verbatim>\<open>for video_url, video_title in videos\<close> (lines 189 to 204).\<close>

fun for_videos ::
    "env \<Rightarrow> (string \<times> string) list \<Rightarrow> string list \<Rightarrow> state \<Rightarrow> state \<times> string list" where
  "for_videos e [] past_videos st = (st, past_videos)"
| "for_videos e ((video_url, video_title) # videos) past_videos st =
     (if video_url \<in> set past_videos
      then for_videos e videos past_videos (emit [Print (Skipping video_title)] st)
      else
        (case transfer_video e st past_videos video_url video_title of
           (st1, past1, None) \<Rightarrow> for_videos e videos past1 st1
         | (st1, past1, Some ex) \<Rightarrow> for_videos e videos past1 (emit [Print (Error ex)] st1)))"

text \<open>
  The loop \<^verbatim>\<open>for channel_id in channels\<close> (lines 184 to 207). An error of the
  resolver is the pair \<^verbatim>\<open>(None, message)\<close>, which is not empty: the inner
  \<^verbatim>\<open>for\<close> then fails to unpack \<^verbatim>\<open>None\<close>, and the \<^verbatim>\<open>TypeError\<close> is caught by the
  outer \<^verbatim>\<open>except\<close>.
\<close>

definition unpack_error :: exn where
  "unpack_error = OtherError ''cannot unpack non-iterable NoneType object''"

fun for_channels ::
    "env \<Rightarrow> string list \<Rightarrow> string list \<Rightarrow> state \<Rightarrow> state \<times> string list" where
  "for_channels e [] past_videos st = (st, past_videos)"
| "for_channels e (channel_id # channels) past_videos st =
     (case get_latest_video_url e st channel_id LAST_VIDEO_N of
        (st1, Failure msg) \<Rightarrow>
          for_channels e channels past_videos (emit [Print (Error unpack_error)] st1)
      | (st1, Videos []) \<Rightarrow> for_channels e channels past_videos st1
      | (st1, Videos videos) \<Rightarrow>
          (case for_videos e videos past_videos st1 of
             (st2, past2) \<Rightarrow> for_channels e channels past2 st2))"

text \<open>
  Lines 181 to 210 of \<^verbatim>\<open>main\<close>, the part that runs once the catalog is loaded:
  read the history file (a missing file raises), run the loops, write the
  file back.
\<close>

definition sync_channels :: "env \<Rightarrow> string list \<Rightarrow> state \<Rightarrow> state \<times> exn option" where
  "sync_channels e channels st =
     (case past_videos_file st of
        None \<Rightarrow>
          (emit [Read_history None] st, Some (OtherError ''No such file: past_videos.json''))
      | Some past_videos \<Rightarrow>
          (case for_channels e channels past_videos (emit [Read_history (Some past_videos)] st) of
             (st1, past1) \<Rightarrow>
               (emit [Write_history past1] (st1\<lparr>past_videos_file := Some past1\<rparr>), None)))"

definition print_now :: "env \<Rightarrow> state \<Rightarrow> state" where
  "print_now e st = (let now = clock e (trace st) in emit [Now now, Print (Time_now now)] st)"

definition main :: "env \<Rightarrow> state \<Rightarrow> state \<times> exn option" where
  "main e st =
     (case delete_old_videos e st 14 of
        (st1, Some ex) \<Rightarrow> (st1, Some ex)
      | (st1, None) \<Rightarrow>
          (case download_channels_list_from_drive e (print_now e st1) of
             (st2, Inl ex) \<Rightarrow> (st2, Some ex)
           | (st2, Inr None) \<Rightarrow> (emit [Print No_channels_found] st2, None)
           | (st2, Inr (Some channels)) \<Rightarrow> sync_channels e channels st2))"

section \<open>Classes of events\<close>

fun is_transfer_event :: "event \<Rightarrow> bool" where
  "is_transfer_event (Yt_streams u r) = True"
| "is_transfer_event (Stream_download s d n r) = True"
| "is_transfer_event (Drive_upload p n r) = True"
| "is_transfer_event (Os_remove p r) = True"
| "is_transfer_event ev = False"

fun is_resolver_event :: "event \<Rightarrow> bool" where
  "is_resolver_event (Channels_list c r) = True"
| "is_resolver_event (Playlist_items p n r) = True"
| "is_resolver_event ev = False"

fun is_history_event :: "event \<Rightarrow> bool" where
  "is_history_event (Read_history h) = True"
| "is_history_event (Write_history h) = True"
| "is_history_event ev = False"

text \<open>The Transfer Pipeline is invoked for a URL: \<^verbatim>\<open>download_video\<close> opens it.\<close>

fun invokes_transfer :: "string \<Rightarrow> event \<Rightarrow> bool" where
  "invokes_transfer u (Yt_streams v r) = (u = v)"
| "invokes_transfer u ev = False"

text \<open>The resolver asks the YouTube API for a channel.\<close>

fun resolves :: "string \<Rightarrow> event \<Rightarrow> bool" where
  "resolves c (Channels_list d r) = (c = d)"
| "resolves c ev = False"

fun is_error_print :: "event \<Rightarrow> bool" where
  "is_error_print (Print (Error ex)) = True"
| "is_error_print ev = False"

fun is_delete_of :: "string \<Rightarrow> event \<Rightarrow> bool" where
  "is_delete_of i (Drive_delete j r) = (i = j)"
| "is_delete_of i ev = False"

fun is_failed_step :: "event \<Rightarrow> bool" where
  "is_failed_step (Yt_streams u (Inl ex)) = True"
| "is_failed_step (Stream_download s d n (Some ex)) = True"
| "is_failed_step (Drive_upload p n (Inl ex)) = True"
| "is_failed_step (Os_remove p (Some ex)) = True"
| "is_failed_step ev = False"

text \<open>The URLs for which the Transfer Pipeline was invoked, in the order of the trace.\<close>

fun invoked_urls :: "event list \<Rightarrow> string list" where
  "invoked_urls [] = []"
| "invoked_urls (Yt_streams u r # evs) = u # invoked_urls evs"
| "invoked_urls (ev # evs) = invoked_urls evs"

text \<open>
  The transfer that has begun and not ended, if there is one: \<^verbatim>\<open>download_video\<close>
  has opened its URL, and since then \<^verbatim>\<open>main\<close> has printed neither the line
  \<^verbatim>\<open>Uploaded\<close>, which ends the \<^verbatim>\<open>try\<close> body, nor the line \<^verbatim>\<open>Error\<close> of an
  \<^verbatim>\<open>except\<close>.
\<close>

fun pending :: "string option \<Rightarrow> event list \<Rightarrow> string option" where
  "pending cur [] = cur"
| "pending cur (Yt_streams u r # evs) = pending (Some u) evs"
| "pending cur (Print (Uploaded t) # evs) = pending None evs"
| "pending cur (Print (Error ex) # evs) = pending None evs"
| "pending cur (ev # evs) = pending cur evs"

text \<open>
  The URLs whose transfer failed, in the order of the trace, once for every
  failure: the transfer of the URL had begun and not ended when \<^verbatim>\<open>main\<close>
  printed the line \<^verbatim>\<open>Error\<close> of an \<^verbatim>\<open>except\<close>.
\<close>

fun failed_urls :: "string option \<Rightarrow> event list \<Rightarrow> string list" where
  "failed_urls cur [] = []"
| "failed_urls cur (Yt_streams u r # evs) = failed_urls (Some u) evs"
| "failed_urls cur (Print (Uploaded t) # evs) = failed_urls None evs"
| "failed_urls cur (Print (Error ex) # evs) =
     (case cur of None \<Rightarrow> [] | Some u \<Rightarrow> [u]) @ failed_urls None evs"
| "failed_urls cur (ev # evs) = failed_urls cur evs"

text \<open>
  The second state continues the trace of the first, and every event it adds
  satisfies \<open>P\<close>.
\<close>

definition extends_by :: "(event \<Rightarrow> bool) \<Rightarrow> state \<Rightarrow> state \<Rightarrow> bool" where
  "extends_by P st st' \<longleftrightarrow> prefix (trace st) (trace st') \<and> list_all P (events_since st st')"

text \<open>The events the two loops of \<^verbatim>\<open>main\<close> may add when the history list is \<open>past\<close>.\<close>

fun sync_event :: "string list \<Rightarrow> event \<Rightarrow> bool" where
  "sync_event past (Yt_streams v r) = (v \<notin> set past)"
| "sync_event past (Stream_download s d n r) = True"
| "sync_event past (Drive_upload p n r) = True"
| "sync_event past (Os_remove p r) = True"
| "sync_event past (Channels_list c r) = True"
| "sync_event past (Playlist_items p n r) = True"
| "sync_event past (Print (Skipping t)) = True"
| "sync_event past (Print (Downloaded t)) = True"
| "sync_event past (Print (Uploaded t)) = True"
| "sync_event past (Print (Error ex)) = True"
| "sync_event past ev = False"

text \<open>
  The events of \<^verbatim>\<open>main\<close> before the catalog is loaded: the sweep, the clock
  line, the search for the catalog and a failed download of it.
\<close>

fun setup_event :: "event \<Rightarrow> bool" where
  "setup_event (Now t) = True"
| "setup_event (Drive_list r) = True"
| "setup_event (Drive_delete i r) = True"
| "setup_event (Drive_find_catalog r) = True"
| "setup_event (Drive_get_media i (Inl ex)) = True"
| "setup_event (Print (Deleting_old n t)) = True"
| "setup_event (Print (Deleted_video i)) = True"
| "setup_event (Print (Error_deleting ex)) = True"
| "setup_event (Print (Time_now t)) = True"
| "setup_event (Print Catalog_not_found) = True"
| "setup_event (Print No_channels_found) = True"
| "setup_event ev = False"

section \<open>Concrete inputs\<close>

text \<open>Noon of 3 November 2026.\<close>

definition demo_now :: timestamp where
  "demo_now = 63929304000000000"

definition demo_streams :: "stream list" where
  "demo_streams =
     [\<lparr>itag = 22, progressive = True, subtype = ''mp4'', resolution = ''720p''\<rparr>,
      \<lparr>itag = 18, progressive = True, subtype = ''mp4'', resolution = ''360p''\<rparr>,
      \<lparr>itag = 137, progressive = False, subtype = ''mp4'', resolution = ''1080p''\<rparr>,
      \<lparr>itag = 59, progressive = True, subtype = ''mp4'', resolution = ''480p''\<rparr>]"

definition demo_items :: "playlist_item list" where
  "demo_items =
     [\<lparr>videoId = ''A'', title = ''first''\<rparr>,
      \<lparr>videoId = ''B'', title = ''second''\<rparr>,
      \<lparr>videoId = ''C'', title = ''third''\<rparr>]"

text \<open>
  An environment in which every remote call succeeds. The machine is on UTC,
  and a listing answers with the first hundred files of the folder, the
  default page size of Drive.
\<close>

definition demo_env :: env where
  "demo_env =
     \<lparr>clock = (\<lambda>tr. demo_now),
      drive_list_result = (\<lambda>tr folder. Inr (take 100 folder)),
      drive_delete_result = (\<lambda>tr i. None),
      drive_find_result = (\<lambda>tr. None),
      drive_get_media_result = (\<lambda>tr i. Inr [''UCa'']),
      channels_list_result = (\<lambda>tr c. if c = ''UCa'' then Inr (Some ''UUa'') else Inr None),
      playlist_items_result = (\<lambda>tr p n. Inr demo_items),
      yt_streams_result = (\<lambda>tr u. Inr demo_streams),
      stream_download_result = (\<lambda>tr s d n. None),
      drive_upload_result = (\<lambda>tr p n. Inr (''id-'' @ n, demo_now)),
      os_remove_result = (\<lambda>tr p. None)\<rparr>"

text \<open>The same, but no video can be opened, and the catalog names the channel twice.\<close>

definition failing_env :: env where
  "failing_env =
     demo_env\<lparr>yt_streams_result := (\<lambda>tr u. Inl (OtherError ''timed out'')),
              drive_get_media_result := (\<lambda>tr i. Inr [''UCa'', ''UCa''])\<rparr>"

definition url_A :: string where
  "url_A = ''https://www.youtube.com/watch?v=A''"

definition url_B :: string where
  "url_B = ''https://www.youtube.com/watch?v=B''"

definition url_C :: string where
  "url_C = ''https://www.youtube.com/watch?v=C''"

definition catalog_file :: drive_file where
  "catalog_file = \<lparr>file_id = ''f0'', file_name = ''channels.json'', createdTime = demo_now - 5\<rparr>"

definition demo_state :: state where
  "demo_state =
     \<lparr>drive = [catalog_file],
      past_videos_file = Some [url_A, url_B],
      trace = []\<rparr>"

text \<open>
  Two videos in the folder at noon of 3 November 2026 (UTC): one created
  exactly fourteen days before, one a second earlier.
\<close>

definition boundary_file :: drive_file where
  "boundary_file =
     \<lparr>file_id = ''f1'', file_name = ''kept.mp4'', createdTime = demo_now - 14 * us_per_day\<rparr>"

definition older_file :: drive_file where
  "older_file =
     \<lparr>file_id = ''f2'', file_name = ''old.mp4'',
      createdTime = demo_now - 14 * us_per_day - us_per_second\<rparr>"

text \<open>Every remote call succeeds, but the local file cannot be removed.\<close>

definition busy_env :: env where
  "busy_env = demo_env\<lparr>os_remove_result := (\<lambda>tr p. Some (OtherError ''busy''))\<rparr>"

text \<open>The channel exists, its uploads playlist is empty.\<close>

definition empty_playlist_env :: env where
  "empty_playlist_env = demo_env\<lparr>playlist_items_result := (\<lambda>tr p n. Inr [])\<rparr>"

text \<open>The folder holds no catalog, only an old video.\<close>

definition no_catalog_state :: state where
  "no_catalog_state = demo_state\<lparr>drive := [older_file]\<rparr>"

definition boundary_state :: state where
  "boundary_state = demo_state\<lparr>drive := [catalog_file, boundary_file, older_file]\<rparr>"

text \<open>The same instant read on machines two hours ahead of UTC and five hours behind.\<close>

definition utc_plus_2_env :: env where
  "utc_plus_2_env = demo_env\<lparr>clock := (\<lambda>tr. local_now (2 * us_per_hour) demo_now)\<rparr>"

definition utc_minus_5_env :: env where
  "utc_minus_5_env = demo_env\<lparr>clock := (\<lambda>tr. local_now (- 5 * us_per_hour) demo_now)\<rparr>"

text \<open>
  A catalog that is fifteen days old, behind three videos of the day before, and
  behind a hundred of them.
\<close>

definition old_catalog :: drive_file where
  "old_catalog = catalog_file\<lparr>createdTime := demo_now - 15 * us_per_day\<rparr>"

definition recent_video :: "nat \<Rightarrow> drive_file" where
  "recent_video n =
     \<lparr>file_id = ''v'' @ replicate n (CHR ''i''), file_name = ''video.mp4'',
      createdTime = demo_now - us_per_day\<rparr>"

definition small_state :: state where
  "small_state = demo_state\<lparr>drive := map recent_video [0..<3] @ [old_catalog]\<rparr>"

definition crowded_state :: state where
  "crowded_state = demo_state\<lparr>drive := map recent_video [0..<100] @ [old_catalog]\<rparr>"

text \<open>An event that is no part of the sync: no history file, no resolver, no transfer.\<close>

definition no_sync_event :: "event \<Rightarrow> bool" where
  "no_sync_event ev \<longleftrightarrow>
     \<not> is_history_event ev \<and> \<not> is_resolver_event ev \<and> \<not> is_transfer_event ev"

text \<open>The folder holds a file named \<^verbatim>\<open>channels.json\<close>.\<close>

definition has_catalog :: "state \<Rightarrow> bool" where
  "has_catalog st \<longleftrightarrow> filter (\<lambda>f. file_name f = ''channels.json'') (drive st) \<noteq> []"

section \<open>Traces\<close>

lemma emit_simps [simp]:
  "trace (emit evs st) = trace st @ evs"
  "drive (emit evs st) = drive st"
  "past_videos_file (emit evs st) = past_videos_file st"
  by (simp_all add: emit_def)

lemma emit_update [simp]:
  "emit evs (st\<lparr>drive := d\<rparr>) = (emit evs st)\<lparr>drive := d\<rparr>"
  "emit evs (st\<lparr>past_videos_file := h\<rparr>) = (emit evs st)\<lparr>past_videos_file := h\<rparr>"
  by (simp_all add: emit_def)

lemma events_since_update [simp]:
  "events_since st (st'\<lparr>drive := d\<rparr>) = events_since st st'"
  "events_since st (st'\<lparr>past_videos_file := h\<rparr>) = events_since st st'"
  "events_since (st\<lparr>drive := d\<rparr>) st' = events_since st st'"
  by (simp_all add: events_since_def)

lemma extends_byI: "trace st' = trace st @ new \<Longrightarrow> list_all P new \<Longrightarrow> extends_by P st st'"
  by (simp add: extends_by_def events_since_def)

lemma extends_byE:
  assumes "extends_by P st st'"
  obtains new where "trace st' = trace st @ new" "list_all P new" "events_since st st' = new"
  using assms by (auto simp: extends_by_def events_since_def prefix_def)

lemma extends_by_refl: "extends_by P st st"
  by (rule extends_byI[where new="[]"]) simp_all

lemma extends_by_trans:
  assumes "extends_by P st st1" "extends_by P st1 st2"
  shows "extends_by P st st2"
proof -
  from assms(1) obtain a where a: "trace st1 = trace st @ a" "list_all P a" by (rule extends_byE)
  from assms(2) obtain b where b: "trace st2 = trace st1 @ b" "list_all P b" by (rule extends_byE)
  show ?thesis by (rule extends_byI[where new="a @ b"]) (use a b in simp_all)
qed

lemma extends_by_emit: "list_all P evs \<Longrightarrow> extends_by P st (emit evs st)"
  by (rule extends_byI[where new=evs]) simp_all

lemma extends_by_emit_after:
  "extends_by P st st1 \<Longrightarrow> list_all P evs \<Longrightarrow> extends_by P st (emit evs st1)"
  by (erule extends_by_trans) (rule extends_by_emit)

lemma extends_by_mono:
  "extends_by P st st' \<Longrightarrow> (\<And>ev. P ev \<Longrightarrow> Q ev) \<Longrightarrow> extends_by Q st st'"
  by (auto simp: extends_by_def list_all_iff)

lemma extends_by_update [simp]:
  "extends_by P st (st'\<lparr>drive := d\<rparr>) = extends_by P st st'"
  "extends_by P (st\<lparr>drive := d\<rparr>) st' = extends_by P st st'"
  "extends_by P st (st'\<lparr>past_videos_file := h\<rparr>) = extends_by P st st'"
  by (simp_all add: extends_by_def events_since_def)

lemma extends_by_events: "extends_by P st st' \<Longrightarrow> list_all P (events_since st st')"
  by (simp add: extends_by_def)

lemma invoked_urls_append: "invoked_urls (a @ b) = invoked_urls a @ invoked_urls b"
  by (induction a rule: invoked_urls.induct) simp_all

lemma events_since_trans:
  assumes "extends_by P st st1" "extends_by Q st1 st2"
  shows "events_since st st2 = events_since st st1 @ events_since st1 st2"
proof -
  from assms(1) obtain a where a: "trace st1 = trace st @ a" by (rule extends_byE)
  from assms(2) obtain b where b: "trace st2 = trace st1 @ b" by (rule extends_byE)
  show ?thesis using a b by (simp add: events_since_def)
qed

lemma events_since_emit [simp]: "events_since st (emit evs st) = evs"
  by (simp add: events_since_def)

section \<open>Transfer Pipeline: the choice of the stream\<close>

lemma first_None: "first ys = None \<longleftrightarrow> ys = []"
  by (cases ys) (auto simp: first_def)

lemma first_Some_mem: "first ys = Some s \<Longrightarrow> s \<in> set ys"
  by (cases ys) (auto simp: first_def)

lemma first_filter_None: "first (filter P xs) = None \<longleftrightarrow> (\<forall>x\<in>set xs. \<not> P x)"
  by (simp add: first_None filter_empty_conv)

lemma first_filter_Some: "first (filter P xs) = Some s \<Longrightarrow> P s \<and> s \<in> set xs"
  using first_Some_mem[of "filter P xs" s] by simp

lemma first_hd: "xs \<noteq> [] \<Longrightarrow> first xs = Some (hd xs)"
  by (cases xs) (auto simp: first_def)

lemma hd_sorted_least: "sorted (map f ys) \<Longrightarrow> t \<in> set ys \<Longrightarrow> f (hd ys) \<le> f t"
  by (cases ys) auto

lemma resolution_int_labels:
  "resolution_int ''360p'' = 360" "resolution_int ''480p'' = 480" "resolution_int ''720p'' = 720"
  by (simp_all add: resolution_int_def is_digit_def digit_val_def)

lemma select_stream_general:
  assumes "progressive_mp4 available \<noteq> []"
  shows "\<exists>s. select_stream available = Some s \<and> s \<in> set (progressive_mp4 available) \<and>
           ((\<exists>t\<in>set (progressive_mp4 available). resolution t = ''480p'')
              \<longrightarrow> resolution s = ''480p'') \<and>
           ((\<forall>t\<in>set (progressive_mp4 available). resolution t \<noteq> ''480p'') \<longrightarrow>
               s = hd (order_by_resolution (progressive_mp4 available)) \<and>
               (\<forall>t\<in>set (progressive_mp4 available).
                   resolution_int (resolution s) \<le> resolution_int (resolution t)))"
proof -
  let ?F = "progressive_mp4 available"
  let ?S = "order_by_resolution ?F"
  have setS: "set ?S = set ?F" by (simp add: order_by_resolution_def)
  have neS: "?S \<noteq> []" using assms setS by (metis set_empty)
  have sortedS: "sorted (map (\<lambda>s. resolution_int (resolution s)) ?S)"
    by (simp add: order_by_resolution_def)
  have sel: "select_stream available =
      (case first (filter (\<lambda>s. resolution s = ''480p'') ?S) of
         None \<Rightarrow> first ?S | Some s \<Rightarrow> Some s)"
    by (simp add: select_stream_def Let_def)
  show ?thesis
  proof (cases "first (filter (\<lambda>s. resolution s = ''480p'') ?S)")
    case None
    then have no: "\<forall>t\<in>set ?F. resolution t \<noteq> ''480p''"
      using setS by (simp add: first_filter_None)
    have "select_stream available = Some (hd ?S)" using None sel neS by (simp add: first_hd)
    moreover have "hd ?S \<in> set ?F" using neS setS by (metis hd_in_set)
    moreover have "\<forall>t\<in>set ?F.
        resolution_int (resolution (hd ?S)) \<le> resolution_int (resolution t)"
      using hd_sorted_least[OF sortedS] setS by blast
    ultimately show ?thesis using no by auto
  next
    case (Some s)
    then have "resolution s = ''480p'' \<and> s \<in> set ?F"
      using first_filter_Some[OF Some] setS by simp
    then show ?thesis using Some sel by auto
  qed
qed

lemma select_stream_three:
  assumes "resolution ` set (progressive_mp4 available) = {''360p'', ''480p'', ''720p''}"
  shows "map_option resolution (select_stream available) = Some ''480p''"
proof -
  let ?F = "progressive_mp4 available"
  have "''480p'' \<in> resolution ` set ?F" unfolding assms by simp
  then obtain t where t: "t \<in> set ?F" "resolution t = ''480p''" by (elim imageE) simp
  then have ne: "?F \<noteq> []" by (cases ?F) simp_all
  obtain s where "select_stream available = Some s"
     "(\<exists>t\<in>set ?F. resolution t = ''480p'') \<longrightarrow> resolution s = ''480p''"
    using select_stream_general[OF ne] by blast
  then show ?thesis using t by (simp, blast)
qed

lemma select_stream_two:
  assumes "resolution ` set (progressive_mp4 available) = {''360p'', ''720p''}"
  shows "map_option resolution (select_stream available) = Some ''360p''"
proof -
  let ?F = "progressive_mp4 available"
  have "''360p'' \<in> resolution ` set ?F" unfolding assms by simp
  then obtain t where t: "t \<in> set ?F" "resolution t = ''360p''" by (elim imageE) simp
  then have ne: "?F \<noteq> []" by (cases ?F) simp_all
  have mem: "resolution u \<in> {''360p'', ''720p''}" if "u \<in> set ?F" for u
    using that assms imageI[of u "set ?F" resolution] by simp
  have no: "\<forall>u\<in>set ?F. resolution u \<noteq> ''480p''"
  proof
    fix u assume "u \<in> set ?F"
    from mem[OF this] show "resolution u \<noteq> ''480p''" by (elim insertE) simp_all
  qed
  obtain s where s: "select_stream available = Some s" "s \<in> set ?F"
     "(\<forall>u\<in>set ?F. resolution u \<noteq> ''480p'') \<longrightarrow>
        (\<forall>u\<in>set ?F. resolution_int (resolution s) \<le> resolution_int (resolution u))"
    using select_stream_general[OF ne] by blast
  have le: "resolution_int (resolution s) \<le> 360"
    using s(3) no t resolution_int_labels(1) by metis
  have "resolution s = ''360p''"
    using mem[OF s(2)] le by (elim insertE) (simp_all add: resolution_int_labels)
  then show ?thesis using s(1) by simp
qed

text \<open>
  C6. Whenever the video offers a progressive mp4 stream, \<^verbatim>\<open>download_video\<close>
  selects one of them: a stream labelled exactly \<open>480p\<close> when there is one,
  otherwise the first stream of the ascending order by resolution, whose
  resolution none of the others is below. Offered the resolutions 360p, 480p
  and 720p it selects 480p; offered 360p and 720p it selects 360p.
\<close>

theorem select_stream_policy:
  "(progressive_mp4 available \<noteq> [] \<longrightarrow>
      (\<exists>s. select_stream available = Some s \<and> s \<in> set (progressive_mp4 available) \<and>
           ((\<exists>t\<in>set (progressive_mp4 available). resolution t = ''480p'')
              \<longrightarrow> resolution s = ''480p'') \<and>
           ((\<forall>t\<in>set (progressive_mp4 available). resolution t \<noteq> ''480p'') \<longrightarrow>
               s = hd (order_by_resolution (progressive_mp4 available)) \<and>
               (\<forall>t\<in>set (progressive_mp4 available).
                   resolution_int (resolution s) \<le> resolution_int (resolution t)))))
   \<and> (resolution ` set (progressive_mp4 available) = {''360p'', ''480p'', ''720p''} \<longrightarrow>
        map_option resolution (select_stream available) = Some ''480p'')
   \<and> (resolution ` set (progressive_mp4 available) = {''360p'', ''720p''} \<longrightarrow>
        map_option resolution (select_stream available) = Some ''360p'')"
  using select_stream_general[of available] select_stream_three[of available]
    select_stream_two[of available]
  by blast

theorem select_stream_policy_witness:
  "resolution ` set (progressive_mp4 demo_streams) = {''360p'', ''480p'', ''720p''}
   \<and> map_option resolution (select_stream demo_streams) = Some ''480p''
   \<and> resolution ` set (progressive_mp4 (take 3 demo_streams)) = {''360p'', ''720p''}
   \<and> map_option resolution (select_stream (take 3 demo_streams)) = Some ''360p''"
proof -
  have a: "resolution ` set (progressive_mp4 demo_streams) = {''360p'', ''480p'', ''720p''}"
    by (auto simp: progressive_mp4_def demo_streams_def)
  have b: "resolution ` set (progressive_mp4 (take 3 demo_streams)) = {''360p'', ''720p''}"
    by (auto simp: progressive_mp4_def demo_streams_def)
  show ?thesis
    using a b select_stream_policy[of demo_streams] select_stream_policy[of "take 3 demo_streams"]
    by blast
qed

section \<open>The loops of the Sync Driver\<close>

lemma sync_event_mono: "sync_event past1 ev \<Longrightarrow> set past \<subseteq> set past1 \<Longrightarrow> sync_event past ev"
  by (induction past1 ev rule: sync_event.induct) auto

lemma download_video_sync:
  "download_video e st u p = (st', r) \<Longrightarrow> u \<notin> set past \<Longrightarrow> extends_by (sync_event past) st st'"
  by (auto simp: download_video_def Let_def split: sum.splits option.splits
           intro!: extends_by_emit extends_by_emit_after)

lemma upload_file_sync:
  "upload_file e st p n = (st', r) \<Longrightarrow> extends_by (sync_event past) st st'"
  by (auto simp: upload_file_def split: sum.splits intro!: extends_by_emit)

lemma os_remove_sync:
  "os_remove e st p = (st', r) \<Longrightarrow> extends_by (sync_event past) st st'"
  by (auto simp: os_remove_def Let_def intro!: extends_by_emit)

lemma transfer_video_sync:
  assumes "transfer_video e st past u t = (st', past', r)" "u \<notin> set past"
  shows "extends_by (sync_event past) st st'"
proof -
  let ?P = "sync_event past"
  let ?name = "t @ ''.mp4''"
  let ?path = "os_path_join OUTPUT_DIR ?name"
  obtain st1 r1 where d: "download_video e st u ?path = (st1, r1)" by (cases "download_video e st u ?path")
  have e1: "extends_by ?P st st1" using download_video_sync[OF d assms(2)] .
  show ?thesis
  proof (cases r1)
    case (Some ex)
    then have "st' = st1" using assms(1) d by (simp add: transfer_video_def Let_def)
    then show ?thesis using e1 by simp
  next
    case None
    let ?st1' = "emit [Print (Downloaded t)] st1"
    have e1': "extends_by ?P st ?st1'" using e1 by (rule extends_by_emit_after) simp
    obtain st2 r2 where up: "upload_file e ?st1' ?path ?name = (st2, r2)"
      by (cases "upload_file e ?st1' ?path ?name")
    have e2: "extends_by ?P st st2" using e1' upload_file_sync[OF up] by (rule extends_by_trans)
    show ?thesis
    proof (cases r2)
      case (Some ex)
      then have "st' = st2" using assms(1) d None up by (simp add: transfer_video_def Let_def)
      then show ?thesis using e2 by simp
    next
      case r2: None
      obtain st3 r3 where rm: "os_remove e st2 ?path = (st3, r3)" by (cases "os_remove e st2 ?path")
      have e3: "extends_by ?P st st3" using e2 os_remove_sync[OF rm] by (rule extends_by_trans)
      show ?thesis
      proof (cases r3)
        case (Some ex)
        then have "st' = st3" using assms(1) d None up r2 rm by (simp add: transfer_video_def Let_def)
        then show ?thesis using e3 by simp
      next
        case r3: None
        then have "st' = emit [Print (Uploaded t)] st3"
          using assms(1) d None up r2 rm by (simp add: transfer_video_def Let_def)
        then show ?thesis using e3 by (simp add: extends_by_emit_after)
      qed
    qed
  qed
qed

lemma transfer_video_past:
  assumes "transfer_video e st past u t = (st', past', r)"
  shows "(r = None \<and> past' = past @ [u]) \<or> (r \<noteq> None \<and> past' = past)"
  using assms by (auto simp: transfer_video_def Let_def split: prod.splits option.splits)


lemma for_videos_sync:
  "for_videos e vs past st = (st', past') \<Longrightarrow>
     extends_by (sync_event past) st st' \<and>
     (\<exists>new. past' = past @ new \<and> distinct new \<and> set new \<inter> set past = {} \<and> set new \<subseteq> fst ` set vs)"
proof (induction vs arbitrary: past st)
  case Nil
  then show ?case by (simp add: extends_by_refl)
next
  case (Cons v vs)
  obtain u t where v: "v = (u, t)" by (cases v)
  show ?case
  proof (cases "u \<in> set past")
    case True
    let ?st1 = "emit [Print (Skipping t)] st"
    have run: "for_videos e vs past ?st1 = (st', past')" using Cons.prems v True by simp
    from Cons.IH[OF run] obtain new where
      ih: "extends_by (sync_event past) ?st1 st'" "past' = past @ new" "distinct new"
          "set new \<inter> set past = {}" "set new \<subseteq> fst ` set vs" by blast
    have "extends_by (sync_event past) st ?st1" by (rule extends_by_emit) simp
    then have "extends_by (sync_event past) st st'" using ih(1) by (rule extends_by_trans)
    then show ?thesis using ih v by auto
  next
    case False
    obtain st1 past1 r where tv: "transfer_video e st past u t = (st1, past1, r)"
      by (cases "transfer_video e st past u t")
    have e1: "extends_by (sync_event past) st st1" using transfer_video_sync[OF tv False] .
    let ?st2 = "case r of None \<Rightarrow> st1 | Some ex \<Rightarrow> emit [Print (Error ex)] st1"
    have e2: "extends_by (sync_event past) st ?st2"
      using e1 by (cases r) (simp_all add: extends_by_emit_after)
    have run: "for_videos e vs past1 ?st2 = (st', past')"
      using Cons.prems v False tv by (cases r) simp_all
    from Cons.IH[OF run] obtain new where
      ih: "extends_by (sync_event past1) ?st2 st'" "past' = past1 @ new" "distinct new"
          "set new \<inter> set past1 = {}" "set new \<subseteq> fst ` set vs" by blast
    have p1: "past1 = past @ [u] \<or> past1 = past" using transfer_video_past[OF tv] by blast
    then have sub: "set past \<subseteq> set past1" by auto
    have "extends_by (sync_event past) ?st2 st'"
      using ih(1) sync_event_mono[OF _ sub] by (rule extends_by_mono)
    with e2 have ext: "extends_by (sync_event past) st st'" by (rule extends_by_trans)
    from p1 show ?thesis
    proof
      assume a: "past1 = past @ [u]"
      have "past' = past @ (u # new) \<and> distinct (u # new) \<and> set (u # new) \<inter> set past = {}
             \<and> set (u # new) \<subseteq> fst ` set (v # vs)"
        using ih a False v by auto
      then show ?thesis using ext by blast
    next
      assume a: "past1 = past"
      then show ?thesis using ih ext by auto
    qed
  qed
qed

lemma get_latest_sync:
  "get_latest_video_url e st c n = (st', r) \<Longrightarrow> extends_by (sync_event past) st st'"
  by (auto simp: get_latest_video_url_def Let_def split: if_splits sum.splits option.splits list.splits
      intro!: extends_by_emit extends_by_emit_after extends_by_refl)

lemma for_channels_sync:
  "for_channels e cs past st = (st', past') \<Longrightarrow>
     extends_by (sync_event past) st st' \<and>
     (\<exists>new. past' = past @ new \<and> distinct new \<and> set new \<inter> set past = {})"
proof (induction cs arbitrary: past st)
  case Nil
  then show ?case by (simp add: extends_by_refl)
next
  case (Cons c cs)
  obtain st1 r where g: "get_latest_video_url e st c LAST_VIDEO_N = (st1, r)"
    by (cases "get_latest_video_url e st c LAST_VIDEO_N")
  have e1: "extends_by (sync_event past) st st1" using get_latest_sync[OF g] .
  show ?case
  proof (cases r)
    case (Failure msg)
    let ?st2 = "emit [Print (Error unpack_error)] st1"
    have run: "for_channels e cs past ?st2 = (st', past')" using Cons.prems g Failure by simp
    have "extends_by (sync_event past) st ?st2" using e1 by (rule extends_by_emit_after) simp
    then show ?thesis using Cons.IH[OF run] by (blast intro: extends_by_trans)
  next
    case (Videos vs)
    obtain st2 past2 where fv: "for_videos e vs past st1 = (st2, past2)"
      by (cases "for_videos e vs past st1")
    have run: "for_channels e cs past2 st2 = (st', past')"
      using Cons.prems g Videos fv by (cases vs) auto
    from for_videos_sync[OF fv] obtain new1 where
      v: "extends_by (sync_event past) st1 st2" "past2 = past @ new1" "distinct new1"
         "set new1 \<inter> set past = {}" by blast
    from Cons.IH[OF run] obtain new2 where
      ih: "extends_by (sync_event past2) st2 st'" "past' = past2 @ new2" "distinct new2"
          "set new2 \<inter> set past2 = {}" by blast
    have sub: "set past \<subseteq> set past2" using v(2) by auto
    have "extends_by (sync_event past) st2 st'"
      using ih(1) sync_event_mono[OF _ sub] by (rule extends_by_mono)
    then have ext: "extends_by (sync_event past) st st'"
      using e1 v(1) by (blast intro: extends_by_trans)
    have "past' = past @ (new1 @ new2) \<and> distinct (new1 @ new2) \<and> set (new1 @ new2) \<inter> set past = {}"
      using v ih by auto
    then show ?thesis using ext by blast
  qed
qed

lemma for_channels_append:
  "for_channels e (cs1 @ cs2) past st =
     (case for_channels e cs1 past st of (st1, past1) \<Rightarrow> for_channels e cs2 past1 st1)"
  by (induction cs1 arbitrary: past st)
     (auto split: prod.splits resolved.splits list.splits)

section \<open>The shape of a run\<close>

lemma delete_video_setup:
  "delete_video_from_drive e st i = (st', r) \<Longrightarrow>
     extends_by setup_event st st' \<and> past_videos_file st' = past_videos_file st \<and>
     set (drive st') \<subseteq> set (drive st)"
  by (auto simp: delete_video_from_drive_def split: option.splits exn.splits
      intro!: extends_by_emit)

lemma is_older_than_days_state:
  "fst (is_older_than_days e st created days) = emit [Now (clock e (trace st))] st"
  by (simp add: is_older_than_days_def Let_def)

lemma delete_loop_setup:
  "delete_loop e days items st = (st', r) \<Longrightarrow>
     extends_by setup_event st st' \<and> past_videos_file st' = past_videos_file st \<and>
     set (drive st') \<subseteq> set (drive st)"
proof (induction items arbitrary: st)
  case Nil
  then show ?case by (simp add: extends_by_refl)
next
  case (Cons item items)
  let ?st1 = "emit [Now (clock e (trace st))] st"
  have e1: "extends_by setup_event st ?st1" by (rule extends_by_emit) simp
  obtain s1 d1 where o: "is_older_than_days e st (createdTime item) days = (s1, d1)"
    by (cases "is_older_than_days e st (createdTime item) days")
  have s1: "s1 = ?st1" using is_older_than_days_state[of e st "createdTime item" days] o by simp
  show ?case
  proof (cases d1)
    case (Inl ex)
    then have "st' = ?st1" using Cons.prems o s1 by simp
    then show ?thesis using e1 by simp
  next
    case (Inr older)
    show ?thesis
    proof (cases older)
      case False
      then have "delete_loop e days items ?st1 = (st', r)"
        using Cons.prems o s1 Inr by simp
      from Cons.IH[OF this] show ?thesis using e1 by (auto intro: extends_by_trans)
    next
      case True
      let ?st2 = "emit [Print (Deleting_old (file_name item) (createdTime item))] ?st1"
      have e2: "extends_by setup_event st ?st2" using e1 by (rule extends_by_emit_after) simp
      obtain st3 r3 where d: "delete_video_from_drive e ?st2 (file_id item) = (st3, r3)"
        by (cases "delete_video_from_drive e ?st2 (file_id item)")
      from delete_video_setup[OF d] have d3: "extends_by setup_event ?st2 st3"
        "past_videos_file st3 = past_videos_file st" "set (drive st3) \<subseteq> set (drive st)"
        by simp_all
      have e3: "extends_by setup_event st st3" using e2 d3(1) by (rule extends_by_trans)
      show ?thesis
      proof (cases r3)
        case (Some ex)
        then have "st' = st3" using Cons.prems o s1 Inr True d by simp
        then show ?thesis using e3 d3 by simp
      next
        case None
        then have "delete_loop e days items st3 = (st', r)"
          using Cons.prems o s1 Inr True d by simp
        from Cons.IH[OF this] show ?thesis using e3 d3 by (auto intro: extends_by_trans)
      qed
    qed
  qed
qed

lemma delete_old_videos_setup:
  assumes "delete_old_videos e st days = (st', r)"
  shows "extends_by setup_event st st' \<and> past_videos_file st' = past_videos_file st \<and>
     set (drive st') \<subseteq> set (drive st)"
proof (cases "drive_list_result e (trace st) (drive st)")
  case (Inl ex)
  then have "st' = emit [Drive_list (Inl ex)] st"
    using assms by (auto simp: delete_old_videos_def)
  then show ?thesis by (simp add: extends_by_emit)
next
  case (Inr items)
  let ?st1 = "emit [Drive_list (Inr items)] st"
  have "delete_loop e days items ?st1 = (st', r)"
    using assms Inr by (simp add: delete_old_videos_def)
  from delete_loop_setup[OF this] have "extends_by setup_event ?st1 st'"
    "past_videos_file st' = past_videos_file st" "set (drive st') \<subseteq> set (drive st)" by simp_all
  moreover have "extends_by setup_event st ?st1" by (rule extends_by_emit) simp
  ultimately show ?thesis by (blast intro: extends_by_trans)
qed

lemma print_now_setup:
  "extends_by setup_event st (print_now e st) \<and>
   past_videos_file (print_now e st) = past_videos_file st \<and> drive (print_now e st) = drive st"
  by (simp add: print_now_def Let_def extends_by_emit)

text \<open>What the catalog loader returns and leaves behind.\<close>

lemma loader_cases:
  assumes "download_channels_list_from_drive e st = (st', r)"
  shows "past_videos_file st' = past_videos_file st \<and> drive st' = drive st \<and>
     ((\<exists>ex. r = Inl ex \<and> extends_by setup_event st st') \<or>
      (r = Inr None \<and> extends_by setup_event st st' \<and>
         filter (\<lambda>f. file_name f = ''channels.json'') (drive st) = []) \<or>
      (\<exists>st1 i channels. r = Inr (Some channels) \<and> extends_by setup_event st st1 \<and>
          past_videos_file st1 = past_videos_file st \<and> drive st1 = drive st \<and>
          filter (\<lambda>f. file_name f = ''channels.json'') (drive st) \<noteq> [] \<and>
          st' = emit [Drive_get_media i (Inr channels)] st1))"
proof (cases "drive_find_result e (trace st)")
  case (Some ex)
  then have "st' = emit [Drive_find_catalog (Some ex)] st" "r = Inl ex"
    using assms by (auto simp: download_channels_list_from_drive_def)
  then show ?thesis by (simp add: extends_by_emit)
next
  case None
  let ?st1 = "emit [Drive_find_catalog None] st"
  have e1: "extends_by setup_event st ?st1" by (rule extends_by_emit) simp
  show ?thesis
  proof (cases "filter (\<lambda>f. file_name f = ''channels.json'') (drive st)")
    case Nil
    then have "st' = emit [Print Catalog_not_found] ?st1" "r = Inr None"
      using assms None by (auto simp: download_channels_list_from_drive_def Let_def)
    then show ?thesis using e1 Nil by (simp add: extends_by_emit_after)
  next
    case (Cons item rest)
    let ?r = "drive_get_media_result e (trace ?st1) (file_id item)"
    show ?thesis
    proof (cases ?r)
      case (Inl ex)
      then have "st' = emit [Drive_get_media (file_id item) (Inl ex)] ?st1" "r = Inl ex"
        using assms None Cons by (auto simp: download_channels_list_from_drive_def Let_def)
      then show ?thesis using e1 by (simp add: extends_by_emit_after)
    next
      case (Inr channels)
      then have "st' = emit [Drive_get_media (file_id item) (Inr channels)] ?st1"
          "r = Inr (Some channels)"
        using assms None Cons by (auto simp: download_channels_list_from_drive_def Let_def)
      moreover have "past_videos_file ?st1 = past_videos_file st \<and> drive ?st1 = drive st" by simp
      ultimately show ?thesis using e1 Cons by auto
    qed
  qed
qed

lemma loader_absent_iff:
  "snd (download_channels_list_from_drive e st) = Inr None \<longleftrightarrow>
     drive_find_result e (trace st) = None \<and>
     filter (\<lambda>f. file_name f = ''channels.json'') (drive st) = []"
  by (auto simp: download_channels_list_from_drive_def Let_def
      split: option.splits list.splits sum.splits)

text \<open>The shape of a run of \<^verbatim>\<open>main\<close>: it ends before the history file is opened, or
  it loads a catalog and runs lines 181 to 210 on it.\<close>

lemma main_cases:
  assumes "main e st = (st', r)"
  shows "(extends_by setup_event st st' \<and> past_videos_file st' = past_videos_file st \<and>
            set (drive st') \<subseteq> set (drive st))
         \<or> (\<exists>st1 i channels. extends_by setup_event st st1 \<and>
               past_videos_file st1 = past_videos_file st \<and>
               filter (\<lambda>f. file_name f = ''channels.json'') (drive st) \<noteq> [] \<and>
               sync_channels e channels (emit [Drive_get_media i (Inr channels)] st1) = (st', r))"
proof -
  obtain s1 r1 where sw: "delete_old_videos e st 14 = (s1, r1)"
    by (cases "delete_old_videos e st 14")
  from delete_old_videos_setup[OF sw] have s1: "extends_by setup_event st s1"
    "past_videos_file s1 = past_videos_file st" "set (drive s1) \<subseteq> set (drive st)" by simp_all
  show ?thesis
  proof (cases r1)
    case (Some ex)
    then have "st' = s1" using assms sw by (simp add: main_def)
    then show ?thesis using s1 by simp
  next
    case None
    let ?s2 = "print_now e s1"
    have s2: "extends_by setup_event st ?s2" "past_videos_file ?s2 = past_videos_file st"
      "set (drive ?s2) \<subseteq> set (drive st)"
      using s1 print_now_setup[of s1 e] by (auto intro: extends_by_trans)
    obtain s3 r3 where ld: "download_channels_list_from_drive e ?s2 = (s3, r3)"
      by (cases "download_channels_list_from_drive e ?s2")
    note lc = loader_cases[OF ld]
    from lc have f3: "past_videos_file s3 = past_videos_file st" "set (drive s3) \<subseteq> set (drive st)"
      using s2 by simp_all
    from lc consider
        (err) ex where "r3 = Inl ex" "extends_by setup_event ?s2 s3"
      | (absent) "r3 = Inr None" "extends_by setup_event ?s2 s3"
      | (loaded) st1 i channels where "r3 = Inr (Some channels)" "extends_by setup_event ?s2 st1"
          "past_videos_file st1 = past_videos_file ?s2"
          "s3 = emit [Drive_get_media i (Inr channels)] st1"
          "filter (\<lambda>f. file_name f = ''channels.json'') (drive ?s2) \<noteq> []"
      by blast
    then show ?thesis
    proof cases
      case err
      then have "st' = s3" using assms sw None ld by (simp add: main_def)
      then show ?thesis using s2(1) err(2) f3 by (auto intro: extends_by_trans)
    next
      case absent
      then have "st' = emit [Print No_channels_found] s3" using assms sw None ld by (simp add: main_def)
      moreover have "extends_by setup_event st s3" using s2(1) absent(2) by (rule extends_by_trans)
      ultimately show ?thesis using f3 by (simp add: extends_by_emit_after)
    next
      case loaded
      have "sync_channels e channels s3 = (st', r)" using assms sw None ld loaded(1) by (simp add: main_def)
      moreover have "extends_by setup_event st st1" using s2(1) loaded(2) by (rule extends_by_trans)
      moreover have "filter (\<lambda>f. file_name f = ''channels.json'') (drive st) \<noteq> []"
        using loaded(5) s2(3) by (auto simp: filter_empty_conv)
      ultimately show ?thesis using loaded(3,4) s2(2) by auto
    qed
  qed
qed

lemma sync_channels_cases:
  assumes "sync_channels e cs st = (st', r)" "past_videos_file st = Some past"
  shows "\<exists>st1 past1. for_channels e cs past (emit [Read_history (Some past)] st) = (st1, past1) \<and>
           st' = emit [Write_history past1] (st1\<lparr>past_videos_file := Some past1\<rparr>) \<and> r = None"
  using assms by (auto simp: sync_channels_def split: prod.splits)

lemma sync_channels_missing:
  assumes "sync_channels e cs st = (st', r)" "past_videos_file st = None"
  shows "st' = emit [Read_history None] st \<and> r \<noteq> None"
  using assms by (auto simp: sync_channels_def)

lemma sync_channels_events:
  assumes run: "sync_channels e cs st = (st', r)"
    and sy: "\<And>past ev. past_videos_file st = Some past \<Longrightarrow> sync_event past ev \<Longrightarrow> P ev"
    and hi: "\<And>ev. is_history_event ev \<Longrightarrow> P ev"
  shows "extends_by P st st'"
proof (cases "past_videos_file st")
  case None
  then show ?thesis using sync_channels_missing[OF run None] hi by (simp add: extends_by_emit)
next
  case (Some past)
  from sync_channels_cases[OF run Some] obtain st1 past1 where
    fc: "for_channels e cs past (emit [Read_history (Some past)] st) = (st1, past1)" and
    st': "st' = emit [Write_history past1] (st1\<lparr>past_videos_file := Some past1\<rparr>)" by blast
  have "extends_by (sync_event past) (emit [Read_history (Some past)] st) st1"
    using for_channels_sync[OF fc] by blast
  then have "extends_by P (emit [Read_history (Some past)] st) st1"
    using sy[OF Some] by (rule extends_by_mono)
  moreover have "extends_by P st (emit [Read_history (Some past)] st)"
    by (rule extends_by_emit) (simp add: hi)
  ultimately have "extends_by P st st1" by (blast intro: extends_by_trans)
  then show ?thesis unfolding st' by (simp add: extends_by_emit_after hi)
qed

lemma main_events:
  assumes run: "main e st = (st', r)"
    and se: "\<And>ev. setup_event ev \<Longrightarrow> P ev"
    and ca: "\<And>i channels. P (Drive_get_media i (Inr channels))"
    and sy: "\<And>past ev. past_videos_file st = Some past \<Longrightarrow> sync_event past ev \<Longrightarrow> P ev"
    and hi: "\<And>ev. is_history_event ev \<Longrightarrow> P ev"
  shows "extends_by P st st'"
  using main_cases[OF run]
proof (elim disjE exE conjE)
  assume "extends_by setup_event st st'"
  then show ?thesis using se by (rule extends_by_mono)
next
  fix st1 i channels
  assume a: "extends_by setup_event st st1" "past_videos_file st1 = past_videos_file st"
    "sync_channels e channels (emit [Drive_get_media i (Inr channels)] st1) = (st', r)"
  have "extends_by P st st1" using a(1) se by (rule extends_by_mono)
  then have "extends_by P st (emit [Drive_get_media i (Inr channels)] st1)"
    by (rule extends_by_emit_after) (simp add: ca)
  moreover have "extends_by P (emit [Drive_get_media i (Inr channels)] st1) st'"
    using a(3) by (rule sync_channels_events) (use a(2) sy hi in auto)
  ultimately show ?thesis by (rule extends_by_trans)
qed

lemma sync_event_not_invoked: "sync_event past ev \<Longrightarrow> u \<in> set past \<Longrightarrow> \<not> invokes_transfer u ev"
  by (cases ev) auto

lemma setup_event_no_sync:
  "setup_event ev \<Longrightarrow> \<not> is_transfer_event ev \<and> \<not> is_resolver_event ev \<and> \<not> is_history_event ev
      \<and> \<not> invokes_transfer u ev \<and> \<not> is_error_print ev"
  by (induction ev rule: setup_event.induct) auto

text \<open>
  C1. A URL that is in the history file when the run starts is never handed to
  the Transfer Pipeline during the run: no event of the run opens that URL.
  The test is the membership of the URL string in the in-memory list, and a
  video whose URL is in the list is skipped, the loop going on with the next
  video before any transfer step.
\<close>

theorem history_urls_never_transferred:
  assumes "past_videos_file st = Some past" "u \<in> set past"
  shows "list_all (\<lambda>ev. \<not> invokes_transfer u ev) (events_since st (fst (main e st)))
     \<and> (u \<in> set past1 \<longrightarrow>
          for_videos e ((u, t) # vs) past1 st1 =
            for_videos e vs past1 (emit [Print (Skipping t)] st1))"
proof -
  obtain st' r where run: "main e st = (st', r)" by (cases "main e st")
  have "extends_by (\<lambda>ev. \<not> invokes_transfer u ev) st st'"
    using run
  proof (rule main_events)
    fix ev assume "setup_event ev"
    then show "\<not> invokes_transfer u ev" by (simp add: setup_event_no_sync)
  next
    fix past' ev assume "past_videos_file st = Some past'" "sync_event past' ev"
    then show "\<not> invokes_transfer u ev" using assms sync_event_not_invoked by auto
  next
    fix ev assume "is_history_event ev"
    then show "\<not> invokes_transfer u ev" by (cases ev) auto
  qed simp
  then show ?thesis using run by (simp add: extends_by_events)
qed

theorem history_urls_never_transferred_witness:
  "past_videos_file demo_state = Some [url_A, url_B] \<and> url_B \<in> set [url_A, url_B]
   \<and> list_all (\<lambda>ev. \<not> invokes_transfer url_B ev) (events_since demo_state (fst (main demo_env demo_state)))
   \<and> for_videos demo_env [(url_B, ''second'')] [url_A, url_B] demo_state =
       for_videos demo_env [] [url_A, url_B] (emit [Print (Skipping ''second'')] demo_state)"
proof -
  have a: "past_videos_file demo_state = Some [url_A, url_B]" by (simp add: demo_state_def)
  have b: "url_B \<in> set [url_A, url_B]" by simp
  show ?thesis
    using a b history_urls_never_transferred[OF a b, of demo_env "[url_A, url_B]" "''second''" "[]" demo_state]
    by blast
qed

section \<open>Failures of a transfer\<close>

lemma is_failed_step_simps [simp]:
  "is_failed_step (Stream_download s d n r) = (r \<noteq> None)"
  "is_failed_step (Os_remove p r) = (r \<noteq> None)"
  "is_failed_step (Yt_streams u r') = isl r'"
  "is_failed_step (Drive_upload p n r'') = isl r''"
proof -
  show "is_failed_step (Stream_download s d n r) = (r \<noteq> None)" by (cases r) simp_all
  show "is_failed_step (Os_remove p r) = (r \<noteq> None)" by (cases r) simp_all
  show "is_failed_step (Yt_streams u r') = isl r'" by (cases r') simp_all
  show "is_failed_step (Drive_upload p n r'') = isl r''" by (cases r'') simp_all
qed

lemma transfer_video_failed:
  assumes "transfer_video e st past u t = (st', past', r)"
    and "\<exists>ev\<in>set (events_since st st'). is_failed_step ev"
  shows "r \<noteq> None"
  using assms
  by (auto simp: transfer_video_def download_video_def upload_file_def os_remove_def Let_def
        events_since_def split: prod.splits option.splits sum.splits if_splits)

text \<open>
  C3. When the transfer of a video that is not in the history fails at any step
  (opening the streams, the download, the upload or the removal of the local
  file: the body of the inner try ends with an exception, as it does whenever
  one of its steps is recorded as failed), the history list is left as it was,
  the URL is not appended, and the loop goes on with the remaining videos of
  the channel from the unchanged list, after printing the error.
\<close>

theorem failed_transfer_not_recorded:
  assumes "u \<notin> set past"
    and "transfer_video e st past u t = (st1, past1, r)"
    and "r \<noteq> None \<or> (\<exists>ev\<in>set (events_since st st1). is_failed_step ev)"
  shows "\<exists>ex. r = Some ex \<and> past1 = past \<and>
           for_videos e ((u, t) # vs) past st =
             for_videos e vs past (emit [Print (Error ex)] st1)"
proof -
  have "r \<noteq> None" using assms(3) transfer_video_failed[OF assms(2)] by blast
  then obtain ex where ex: "r = Some ex" by blast
  then have "past1 = past" using transfer_video_past[OF assms(2)] by simp
  moreover have "for_videos e ((u, t) # vs) past st =
             for_videos e vs past (emit [Print (Error ex)] st1)"
    using assms(1,2) ex \<open>past1 = past\<close> by simp
  ultimately show ?thesis using ex by blast
qed

lemma transfer_busy:
  "snd (snd (transfer_video busy_env demo_state [url_A] url_C ''third'')) = Some (OtherError ''busy'')"
  by (simp add: transfer_video_def busy_env_def demo_env_def download_video_def upload_file_def
        os_remove_def Let_def demo_state_def select_stream_def progressive_mp4_def
        order_by_resolution_def first_def demo_streams_def resolution_int_def is_digit_def
        digit_val_def)

theorem failed_transfer_not_recorded_witness:
  "url_C \<notin> set [url_A]
   \<and> snd (snd (transfer_video busy_env demo_state [url_A] url_C ''third'')) = Some (OtherError ''busy'')
   \<and> fst (snd (transfer_video busy_env demo_state [url_A] url_C ''third'')) = [url_A]
   \<and> for_videos busy_env [(url_C, ''third''), (url_B, ''second'')] [url_A] demo_state =
       for_videos busy_env [(url_B, ''second'')] [url_A]
         (emit [Print (Error (OtherError ''busy''))]
            (fst (transfer_video busy_env demo_state [url_A] url_C ''third'')))"
proof -
  let ?tv = "transfer_video busy_env demo_state [url_A] url_C ''third''"
  have a: "url_C \<notin> set [url_A]" by (simp add: url_A_def url_C_def)
  have b: "?tv = (fst ?tv, fst (snd ?tv), snd (snd ?tv))" by simp
  have c: "snd (snd ?tv) \<noteq> None \<or> (\<exists>ev\<in>set (events_since demo_state (fst ?tv)). is_failed_step ev)"
    by (simp add: transfer_busy)
  from failed_transfer_not_recorded[OF a b c, of "[(url_B, ''second'')]"] transfer_busy a
  show ?thesis by auto
qed

section \<open>Isolation of the channels\<close>

lemma for_channels_step:
  "for_channels e (c # cs) past st =
     (case for_channels e [c] past st of (st1, past1) \<Rightarrow> for_channels e cs past1 st1)"
  using for_channels_append[of e "[c]" cs past st] by simp

lemma for_channels_prefix:
  "for_channels e cs past st = (st', past') \<Longrightarrow> prefix past past'"
  using for_channels_sync[of e cs past st st' past'] by (auto simp: prefix_def)

lemma get_latest_resolves:
  assumes "c \<noteq> []" "get_latest_video_url e st c n = (st', r)"
  shows "list_ex (resolves c) (events_since st st')"
  using assms
  by (auto simp: get_latest_video_url_def Let_def events_since_def
        split: sum.splits option.splits list.splits)

lemma events_since_mono:
  assumes "extends_by P st st1" "extends_by Q st1 st2"
  shows "set (events_since st st1) \<subseteq> set (events_since st st2)"
    and "set (events_since st1 st2) \<subseteq> set (events_since st st2)"
proof -
  from assms(1) obtain a where a: "trace st1 = trace st @ a" by (rule extends_byE)
  from assms(2) obtain b where b: "trace st2 = trace st1 @ b" by (rule extends_byE)
  show "set (events_since st st1) \<subseteq> set (events_since st st2)"
    and "set (events_since st1 st2) \<subseteq> set (events_since st st2)"
    using a b by (simp_all add: events_since_def)
qed

lemma for_channels_resolves_all:
  "b \<in> set cs \<Longrightarrow> b \<noteq> [] \<Longrightarrow>
     list_ex (resolves b) (events_since st (fst (for_channels e cs past st)))"
proof (induction cs arbitrary: past st)
  case Nil
  then show ?case by simp
next
  case (Cons c cs)
  obtain st1 past1 where one: "for_channels e [c] past st = (st1, past1)"
    by (cases "for_channels e [c] past st")
  obtain st2 past2 where rest: "for_channels e cs past1 st1 = (st2, past2)"
    by (cases "for_channels e cs past1 st1")
  have whole: "for_channels e (c # cs) past st = (st2, past2)"
    using for_channels_step[of e c cs past st] one rest by simp
  have x1: "extends_by (sync_event past) st st1" using for_channels_sync[OF one] by blast
  have x2: "extends_by (sync_event past1) st1 st2" using for_channels_sync[OF rest] by blast
  note mono = events_since_mono[OF x1 x2]
  show ?case
  proof (cases "b = c")
    case True
    obtain s r where g: "get_latest_video_url e st c LAST_VIDEO_N = (s, r)"
      by (cases "get_latest_video_url e st c LAST_VIDEO_N")
    have gs: "list_ex (resolves c) (events_since st s)"
      using get_latest_resolves[OF _ g] Cons.prems True by simp
    have "extends_by (sync_event past) st s" using get_latest_sync[OF g] .
    moreover have "\<exists>Q. extends_by Q s st1"
    proof (cases r)
      case (Failure msg)
      then have "st1 = emit [Print (Error unpack_error)] s" using one g by simp
      moreover have "extends_by (\<lambda>ev. True) s (emit [Print (Error unpack_error)] s)"
        by (rule extends_by_emit) simp
      ultimately show ?thesis by blast
    next
      case (Videos vs)
      obtain s2 p2 where fv: "for_videos e vs past s = (s2, p2)" by (cases "for_videos e vs past s")
      then have "st1 = s2" using one g Videos by (cases vs) auto
      then show ?thesis using for_videos_sync[OF fv] by blast
    qed
    ultimately have "set (events_since st s) \<subseteq> set (events_since st st1)"
      using events_since_mono(1) by blast
    then show ?thesis using gs mono(1) whole True by (auto simp: list_ex_iff)
  next
    case False
    then have "b \<in> set cs" using Cons.prems by simp
    from Cons.IH[OF this Cons.prems(2), of st1 past1]
    have "list_ex (resolves b) (events_since st1 st2)" using rest by simp
    then show ?thesis using mono(2) whole by (auto simp: list_ex_iff)
  qed
qed

text \<open>
  C4. The loop over the channels never stops early: whatever the loop did on the
  channels before \<open>a\<close>, the run on the whole catalog is the run on the later
  channels from the state and history that channel \<open>a\<close> leaves. The history
  recorded before \<open>a\<close> is a prefix of what \<open>a\<close> leaves and of the final history,
  so no earlier entry is removed or altered. When the resolver fails for \<open>a\<close>,
  the later channels are processed from the unchanged history, and every later
  channel with a non-empty identifier is asked for at the YouTube API.
\<close>

theorem channel_failure_isolated:
  assumes "for_channels e cs1 past st = (st1, past1)"
  shows "for_channels e (cs1 @ a # cs2) past st =
           (case for_channels e [a] past1 st1 of (st2, past2) \<Rightarrow> for_channels e cs2 past2 st2)
      \<and> prefix past past1
      \<and> prefix past1 (snd (for_channels e [a] past1 st1))
      \<and> prefix past1 (snd (for_channels e (cs1 @ a # cs2) past st))
      \<and> (snd (get_latest_video_url e st1 a LAST_VIDEO_N) = Failure msg \<longrightarrow>
            for_channels e (cs1 @ a # cs2) past st =
              for_channels e cs2 past1
                (emit [Print (Error unpack_error)] (fst (get_latest_video_url e st1 a LAST_VIDEO_N))))
      \<and> (b \<in> set cs2 \<and> b \<noteq> [] \<longrightarrow>
            list_ex (resolves b) (events_since st (fst (for_channels e (cs1 @ a # cs2) past st))))"
proof -
  have 1: "for_channels e (cs1 @ a # cs2) past st = for_channels e (a # cs2) past1 st1"
    using assms by (simp add: for_channels_append)
  have 2: "for_channels e (a # cs2) past1 st1 =
      (case for_channels e [a] past1 st1 of (st2, past2) \<Rightarrow> for_channels e cs2 past2 st2)"
    by (rule for_channels_step)
  have 3: "prefix past past1" using assms by (rule for_channels_prefix)
  have 4: "prefix past1 (snd (for_channels e [a] past1 st1))"
    using for_channels_prefix[of e "[a]" past1 st1] by (cases "for_channels e [a] past1 st1") simp
  have 5: "prefix past1 (snd (for_channels e (a # cs2) past1 st1))"
    using for_channels_prefix[of e "a # cs2" past1 st1]
    by (cases "for_channels e (a # cs2) past1 st1") simp
  have 6: "for_channels e (a # cs2) past1 st1 =
              for_channels e cs2 past1
                (emit [Print (Error unpack_error)] (fst (get_latest_video_url e st1 a LAST_VIDEO_N)))"
    if "snd (get_latest_video_url e st1 a LAST_VIDEO_N) = Failure msg"
    using that by (cases "get_latest_video_url e st1 a LAST_VIDEO_N") simp
  have 7: "list_ex (resolves b) (events_since st (fst (for_channels e (cs1 @ a # cs2) past st)))"
    if "b \<in> set cs2" "b \<noteq> []"
    using for_channels_resolves_all[of b "cs1 @ a # cs2" st e past] that by simp
  show ?thesis using 1 2 3 4 5 6 7 by simp
qed

lemma resolve_unknown:
  "snd (get_latest_video_url demo_env demo_state ''UCx'' LAST_VIDEO_N) =
     Failure ''No channel found with ID: UCx''"
  by (simp add: get_latest_video_url_def demo_env_def)

theorem channel_failure_isolated_witness:
  "for_channels demo_env [] [url_A, url_B] demo_state = (demo_state, [url_A, url_B])
   \<and> snd (get_latest_video_url demo_env demo_state ''UCx'' LAST_VIDEO_N) =
       Failure ''No channel found with ID: UCx''
   \<and> for_channels demo_env ([] @ ''UCx'' # [''UCa'']) [url_A, url_B] demo_state =
       for_channels demo_env [''UCa''] [url_A, url_B]
         (emit [Print (Error unpack_error)]
            (fst (get_latest_video_url demo_env demo_state ''UCx'' LAST_VIDEO_N)))
   \<and> prefix [url_A, url_B]
         (snd (for_channels demo_env ([] @ ''UCx'' # [''UCa'']) [url_A, url_B] demo_state))
   \<and> list_ex (resolves ''UCa'')
         (events_since demo_state
            (fst (for_channels demo_env ([] @ ''UCx'' # [''UCa'']) [url_A, url_B] demo_state)))"
proof -
  have a: "for_channels demo_env [] [url_A, url_B] demo_state = (demo_state, [url_A, url_B])"
    by simp
  have b: "''UCa'' \<in> set [''UCa''] \<and> ''UCa'' \<noteq> []" by simp
  from channel_failure_isolated[OF a, of "''UCx''" "[''UCa'']"
      "''No channel found with ID: UCx''" "''UCa''"] resolve_unknown a b
  show ?thesis by blast
qed

section \<open>Video Resolver: videos or an error\<close>

lemma videos_loop_indices:
  "videos_loop items idx acc =
     (if \<forall>i\<in>set idx. i < length items
      then Inr (acc @ map (\<lambda>i. video_of (items ! i)) idx)
      else Inl (OtherError ''list index out of range''))"
  by (induction idx arbitrary: acc) auto

lemma map_nth_take: "n \<le> length xs \<Longrightarrow> map (\<lambda>i. f (xs ! i)) [0..<n] = map f (take n xs)"
  by (simp add: list_eq_iff_nth_eq)

lemma videos_loop_range:
  "videos_loop items [0..<n] [] =
     (if n \<le> length items then Inr (map video_of (take n items))
      else Inl (OtherError ''list index out of range''))"
proof (cases "n \<le> length items")
  case True
  then have "\<forall>i\<in>set [0..<n]. i < length items" by auto
  then show ?thesis using True by (simp add: videos_loop_indices map_nth_take)
next
  case False
  then have "\<not> (\<forall>i\<in>set [0..<n]. i < length items)" by (auto intro: bexI[where x="length items"])
  then show ?thesis using False by (simp add: videos_loop_indices)
qed

lemma resolver_result:
  "snd (get_latest_video_url e st c n) =
     (if c = [] then Failure ''Could not extract channel identifier from URL''
      else case channels_list_result e (trace st) c of
             Inl ex \<Rightarrow> resolver_handler ex
           | Inr None \<Rightarrow> Failure (''No channel found with ID: '' @ c)
           | Inr (Some pid) \<Rightarrow>
               (case playlist_items_result e (trace st @ [Channels_list c (Inr (Some pid))]) pid n of
                  Inl ex \<Rightarrow> resolver_handler ex
                | Inr items \<Rightarrow>
                    if items = [] then Failure ''Channel has no videos''
                    else if n \<le> length items then Videos (map video_of (take n items))
                    else Failure ''An unexpected error occurred: list index out of range''))"
  by (auto simp: get_latest_video_url_def Let_def videos_loop_range
      split: sum.splits option.splits list.splits)

lemma resolver_handler_Failure: "\<exists>msg. resolver_handler ex = Failure msg"
  by (cases ex) simp_all

text \<open>
  C8. For every channel identifier \<^verbatim>\<open>get_latest_video_url\<close> returns either the
  records (URL, title) of the first \<open>n\<close> items of the channel's uploads playlist,
  in the order of the API, each URL built from the item's video identifier, or
  an error with a message. It is the error naming the channel when the channel
  is not found, and the error "Channel has no videos" when the playlist is
  empty. In \<^verbatim>\<open>main\<close> a returned error makes the loop skip that channel and go on
  with the next one.
\<close>

theorem resolver_videos_or_error:
  "((\<exists>pid items. c \<noteq> [] \<and>
        channels_list_result e (trace st) c = Inr (Some pid) \<and>
        playlist_items_result e (trace st @ [Channels_list c (Inr (Some pid))]) pid n = Inr items \<and>
        items \<noteq> [] \<and> n \<le> length items \<and>
        snd (get_latest_video_url e st c n) =
          Videos (map (\<lambda>it. (''https://www.youtube.com/watch?v='' @ videoId it, title it))
                    (take n items)) \<and>
        length (take n items) = n)
     \<or> (\<exists>msg. snd (get_latest_video_url e st c n) = Failure msg))
   \<and> (c \<noteq> [] \<and> channels_list_result e (trace st) c = Inr None \<longrightarrow>
        snd (get_latest_video_url e st c n) = Failure (''No channel found with ID: '' @ c))
   \<and> (c \<noteq> [] \<and> channels_list_result e (trace st) c = Inr (Some pid') \<and>
       playlist_items_result e (trace st @ [Channels_list c (Inr (Some pid'))]) pid' n = Inr [] \<longrightarrow>
        snd (get_latest_video_url e st c n) = Failure ''Channel has no videos'')
   \<and> (snd (get_latest_video_url e st c LAST_VIDEO_N) = Failure msg' \<longrightarrow>
        for_channels e (c # cs) past st =
          for_channels e cs past
            (emit [Print (Error unpack_error)] (fst (get_latest_video_url e st c LAST_VIDEO_N))))"
proof -
  have vo: "video_of = (\<lambda>it. (''https://www.youtube.com/watch?v='' @ videoId it, title it))"
    by (rule ext) (simp add: video_of_def)
  have 1: "(\<exists>pid items. c \<noteq> [] \<and>
        channels_list_result e (trace st) c = Inr (Some pid) \<and>
        playlist_items_result e (trace st @ [Channels_list c (Inr (Some pid))]) pid n = Inr items \<and>
        items \<noteq> [] \<and> n \<le> length items \<and>
        snd (get_latest_video_url e st c n) =
          Videos (map (\<lambda>it. (''https://www.youtube.com/watch?v='' @ videoId it, title it))
                    (take n items)) \<and>
        length (take n items) = n)
     \<or> (\<exists>msg. snd (get_latest_video_url e st c n) = Failure msg)"
    unfolding resolver_result vo[symmetric]
    using resolver_handler_Failure
    by (auto split: sum.splits option.splits)
  have 2: "snd (get_latest_video_url e st c n) = Failure (''No channel found with ID: '' @ c)"
    if "c \<noteq> []" "channels_list_result e (trace st) c = Inr None"
    using that by (simp add: resolver_result)
  have 3: "snd (get_latest_video_url e st c n) = Failure ''Channel has no videos''"
    if "c \<noteq> []" "channels_list_result e (trace st) c = Inr (Some pid')"
       "playlist_items_result e (trace st @ [Channels_list c (Inr (Some pid'))]) pid' n = Inr []"
    using that by (simp add: resolver_result)
  have 4: "for_channels e (c # cs) past st =
          for_channels e cs past
            (emit [Print (Error unpack_error)] (fst (get_latest_video_url e st c LAST_VIDEO_N)))"
    if "snd (get_latest_video_url e st c LAST_VIDEO_N) = Failure msg'"
    using that by (cases "get_latest_video_url e st c LAST_VIDEO_N") simp
  show ?thesis using 1 2 3 4 by blast
qed

theorem resolver_videos_or_error_witness:
  "snd (get_latest_video_url demo_env demo_state ''UCa'' 3) =
     Videos [(url_A, ''first''), (url_B, ''second''), (url_C, ''third'')]
   \<and> channels_list_result demo_env (trace demo_state) ''UCx'' = Inr None
   \<and> snd (get_latest_video_url demo_env demo_state ''UCx'' LAST_VIDEO_N) =
       Failure ''No channel found with ID: UCx''
   \<and> channels_list_result empty_playlist_env (trace demo_state) ''UCa'' = Inr (Some ''UUa'')
   \<and> playlist_items_result empty_playlist_env
         (trace demo_state @ [Channels_list ''UCa'' (Inr (Some ''UUa''))]) ''UUa'' LAST_VIDEO_N = Inr []
   \<and> snd (get_latest_video_url empty_playlist_env demo_state ''UCa'' LAST_VIDEO_N) =
       Failure ''Channel has no videos''
   \<and> for_channels demo_env (''UCx'' # [''UCa'']) [] demo_state =
       for_channels demo_env [''UCa''] []
         (emit [Print (Error unpack_error)]
            (fst (get_latest_video_url demo_env demo_state ''UCx'' LAST_VIDEO_N)))"
proof -
  have a: "''UCx'' \<noteq> [] \<and> channels_list_result demo_env (trace demo_state) ''UCx'' = Inr None"
    by (simp add: demo_env_def)
  have b: "''UCa'' \<noteq> [] \<and>
      channels_list_result empty_playlist_env (trace demo_state) ''UCa'' = Inr (Some ''UUa'') \<and>
      playlist_items_result empty_playlist_env
         (trace demo_state @ [Channels_list ''UCa'' (Inr (Some ''UUa''))]) ''UUa'' LAST_VIDEO_N = Inr []"
    by (simp add: empty_playlist_env_def demo_env_def)
  have c: "snd (get_latest_video_url demo_env demo_state ''UCa'' 3) =
     Videos [(url_A, ''first''), (url_B, ''second''), (url_C, ''third'')]"
    by (simp add: resolver_result demo_env_def demo_items_def video_of_def url_A_def url_B_def
          url_C_def)
  from resolver_videos_or_error[of "''UCx''" demo_env demo_state LAST_VIDEO_N _
      "''No channel found with ID: UCx''" "[''UCa'']" "[]"] a
  have d: "snd (get_latest_video_url demo_env demo_state ''UCx'' LAST_VIDEO_N) =
       Failure ''No channel found with ID: UCx''"
    and e: "for_channels demo_env (''UCx'' # [''UCa'']) [] demo_state =
       for_channels demo_env [''UCa''] []
         (emit [Print (Error unpack_error)]
            (fst (get_latest_video_url demo_env demo_state ''UCx'' LAST_VIDEO_N)))"
    by simp_all
  from resolver_videos_or_error[of "''UCa''" empty_playlist_env demo_state LAST_VIDEO_N "''UUa''"] b
  have f: "snd (get_latest_video_url empty_playlist_env demo_state ''UCa'' LAST_VIDEO_N) =
       Failure ''Channel has no videos''"
    by blast
  show ?thesis using a b c d e f by blast
qed

section \<open>Evaluation of the concrete inputs\<close>

lemmas run_defs = main_def delete_old_videos_def is_older_than_days_def older_than_def
  delete_video_from_drive_def print_now_def download_channels_list_from_drive_def
  sync_channels_def get_latest_video_url_def transfer_video_def download_video_def
  upload_file_def os_remove_def select_stream_def progressive_mp4_def order_by_resolution_def
  first_def resolution_int_def is_digit_def digit_val_def os_path_join_def os_path_dirname_def
  os_path_basename_def video_of_def unpack_error_def LAST_VIDEO_N_def OUTPUT_DIR_def
  us_per_day_def events_since_def Let_def videos_loop_range emit_def DATETIME_MAX_def
  MAX_DELTA_DAYS_def

lemmas demo_defs = demo_env_def failing_env_def demo_state_def catalog_file_def demo_items_def
  demo_streams_def demo_now_def url_A_def url_B_def url_C_def

section \<open>Retention Sweeper: the age comparison\<close>

lemmas zone_defs = boundary_state_def boundary_file_def older_file_def utc_plus_2_env_def
  utc_minus_5_env_def local_now_def us_per_hour_def us_per_second_def

text \<open>
  Claim C5. The spec has the sweeper delete a file if and only if its age,
  \<open>now - createdTime\<close>, strictly exceeds the retention threshold: a file created
  exactly fourteen days ago is kept, a file one second older is deleted. The
  code does not do this. \<^verbatim>\<open>is_older_than_days\<close> compares the \<^verbatim>\<open>createdTime\<close> of
  Drive, which is UTC with its \<^verbatim>\<open>Z\<close> cut off, with the naive local time of
  \<^verbatim>\<open>datetime.now()\<close>: what it compares with the threshold is the age plus the
  offset of the local time from UTC. On a machine on UTC the sweeper of the
  code keeps the file of exactly fourteen days and deletes the one a second
  older; on a machine two hours ahead of UTC it deletes the file of exactly
  fourteen days, and on a machine five hours behind UTC it keeps the file that
  is fourteen days and one second old.
\<close>

theorem retention_boundary_off_utc:
  "(older_than created (local_now utc_offset instant) days
      \<longleftrightarrow> days * us_per_day < (instant - created) + utc_offset)
   \<and> demo_now - createdTime boundary_file = 14 * us_per_day
   \<and> demo_now - createdTime older_file = 14 * us_per_day + us_per_second
   \<and> \<not> list_ex (is_delete_of (file_id boundary_file))
         (events_since boundary_state (fst (delete_old_videos demo_env boundary_state 14)))
   \<and> list_ex (is_delete_of (file_id older_file))
         (events_since boundary_state (fst (delete_old_videos demo_env boundary_state 14)))
   \<and> list_ex (is_delete_of (file_id boundary_file))
         (events_since boundary_state (fst (delete_old_videos utc_plus_2_env boundary_state 14)))
   \<and> boundary_file \<notin> set (drive (fst (main utc_plus_2_env boundary_state)))
   \<and> \<not> list_ex (is_delete_of (file_id older_file))
         (events_since boundary_state (fst (delete_old_videos utc_minus_5_env boundary_state 14)))
   \<and> older_file \<in> set (drive (fst (main utc_minus_5_env boundary_state)))"
proof -
  have a: "older_than created (local_now utc_offset instant) days
      \<longleftrightarrow> days * us_per_day < (instant - created) + utc_offset"
    by (auto simp: older_than_def local_now_def)
  have b: "demo_now - createdTime boundary_file = 14 * us_per_day"
    "demo_now - createdTime older_file = 14 * us_per_day + us_per_second"
    by (simp_all add: boundary_file_def older_file_def)
  have c: "\<not> list_ex (is_delete_of (file_id boundary_file))
         (events_since boundary_state (fst (delete_old_videos demo_env boundary_state 14)))"
    by (simp add: run_defs demo_defs zone_defs)
  have d: "list_ex (is_delete_of (file_id older_file))
         (events_since boundary_state (fst (delete_old_videos demo_env boundary_state 14)))"
    by (simp add: run_defs demo_defs zone_defs)
  have e: "list_ex (is_delete_of (file_id boundary_file))
         (events_since boundary_state (fst (delete_old_videos utc_plus_2_env boundary_state 14)))"
    by (simp add: run_defs demo_defs zone_defs)
  have f: "boundary_file \<notin> set (drive (fst (main utc_plus_2_env boundary_state)))"
    by (simp add: run_defs demo_defs zone_defs)
  have g: "\<not> list_ex (is_delete_of (file_id older_file))
         (events_since boundary_state (fst (delete_old_videos utc_minus_5_env boundary_state 14)))"
    by (simp add: run_defs demo_defs zone_defs)
  have h: "older_file \<in> set (drive (fst (main utc_minus_5_env boundary_state)))"
    by (simp add: run_defs demo_defs zone_defs)
  show ?thesis using a b c d e f g h by blast
qed

section \<open>Appends to the history\<close>


lemma pending_append: "pending cur (a @ b) = pending (pending cur a) b"
  by (induction cur a rule: pending.induct) simp_all

lemma failed_urls_append:
  "failed_urls cur (a @ b) = failed_urls cur a @ failed_urls (pending cur a) b"
  by (induction cur a rule: failed_urls.induct) simp_all

lemma transfer_video_tally:
  assumes "transfer_video e st past u t = (st', past', r)"
  shows "invoked_urls (events_since st st') = [u] \<and>
         failed_urls cur (events_since st st') = [] \<and>
         pending cur (events_since st st') = (if r = None then None else Some u)"
  using assms
  by (auto simp: transfer_video_def download_video_def upload_file_def os_remove_def Let_def
        events_since_def split: prod.splits option.splits sum.splits)

lemma get_latest_tally:
  assumes "get_latest_video_url e st c n = (st', r)"
  shows "invoked_urls (events_since st st') = [] \<and>
         failed_urls cur (events_since st st') = [] \<and>
         pending cur (events_since st st') = cur"
  using assms
  by (auto simp: get_latest_video_url_def Let_def events_since_def
        split: if_splits sum.splits option.splits list.splits)

lemma setup_tally:
  "list_all setup_event evs \<Longrightarrow>
     invoked_urls evs = [] \<and> failed_urls cur evs = [] \<and> pending cur evs = cur"
proof (induction evs)
  case Nil
  then show ?case by simp
next
  case (Cons ev evs)
  then have "setup_event ev" by simp
  then have "invoked_urls (ev # evs) = invoked_urls evs \<and>
    failed_urls cur (ev # evs) = failed_urls cur evs \<and> pending cur (ev # evs) = pending cur evs"
    by (induction ev rule: setup_event.induct) simp_all
  then show ?case using Cons by simp
qed


lemma tally_seq:
  assumes "pending None a = None"
    "\<forall>u. count_list (invoked_urls a) u + count_list p0 u =
         count_list p1 u + count_list (failed_urls None a) u"
    "pending None b = None \<and>
     (\<forall>u. count_list (invoked_urls b) u + count_list p1 u =
         count_list p2 u + count_list (failed_urls None b) u)"
  shows "pending None (a @ b) = None \<and>
     (\<forall>u. count_list (invoked_urls (a @ b)) u + count_list p0 u =
         count_list p2 u + count_list (failed_urls None (a @ b)) u)"
proof (intro conjI allI)
  show "pending None (a @ b) = None" using assms(1,3) by (simp add: pending_append)
next
  fix u
  from assms(2) have 1: "count_list (invoked_urls a) u + count_list p0 u =
         count_list p1 u + count_list (failed_urls None a) u" by blast
  from assms(3) have 2: "count_list (invoked_urls b) u + count_list p1 u =
         count_list p2 u + count_list (failed_urls None b) u" by blast
  show "count_list (invoked_urls (a @ b)) u + count_list p0 u =
         count_list p2 u + count_list (failed_urls None (a @ b)) u"
    using 1 2 assms(1) by (simp add: invoked_urls_append failed_urls_append)
qed

lemma for_videos_tally:
  "for_videos e vs past st = (st', past') \<Longrightarrow>
     pending None (events_since st st') = None \<and>
     (\<forall>u. count_list (invoked_urls (events_since st st')) u + count_list past u =
          count_list past' u + count_list (failed_urls None (events_since st st')) u)"
proof (induction vs arbitrary: past st)
  case Nil
  then show ?case by (simp add: events_since_def)
next
  case (Cons v vs)
  obtain u t where v: "v = (u, t)" by (cases v)
  show ?case
  proof (cases "u \<in> set past")
    case True
    let ?st1 = "emit [Print (Skipping t)] st"
    have run: "for_videos e vs past ?st1 = (st', past')" using Cons.prems v True by simp
    have x1: "extends_by (\<lambda>ev. True) st ?st1" by (rule extends_by_emit) simp
    have x2: "extends_by (sync_event past) ?st1 st'" using for_videos_sync[OF run] by blast
    have split: "events_since st st' = [Print (Skipping t)] @ events_since ?st1 st'"
      using events_since_trans[OF x1 x2] by simp
    have p: "pending None [Print (Skipping t)] = None" by simp
    have q: "\<forall>w. count_list (invoked_urls [Print (Skipping t)]) w + count_list past w =
          count_list past w + count_list (failed_urls None [Print (Skipping t)]) w" by simp
    from tally_seq[OF p q Cons.IH[OF run]] show ?thesis unfolding split .
  next
    case False
    obtain st1 past1 r where tv: "transfer_video e st past u t = (st1, past1, r)"
      by (cases "transfer_video e st past u t")
    have x1: "extends_by (sync_event past) st st1" using transfer_video_sync[OF tv False] .
    note t1 = transfer_video_tally[OF tv, of None]
    show ?thesis
    proof (cases r)
      case (Some ex)
      let ?st2 = "emit [Print (Error ex)] st1"
      have run: "for_videos e vs past1 ?st2 = (st', past')"
        using Cons.prems v False tv Some by simp
      have p1: "past1 = past" using transfer_video_past[OF tv] Some by simp
      have x2: "extends_by (\<lambda>ev. True) st1 ?st2" by (rule extends_by_emit) simp
      have x3: "extends_by (sync_event past1) ?st2 st'" using for_videos_sync[OF run] by blast
      have x12: "extends_by (\<lambda>ev. True) st ?st2"
        using x1 by (intro extends_by_emit_after extends_by_mono[OF x1]) simp_all
      have "events_since st st' = events_since st ?st2 @ events_since ?st2 st'"
        using events_since_trans[OF x12 x3] .
      moreover have "events_since st ?st2 = events_since st st1 @ [Print (Error ex)]"
        using events_since_trans[OF x1 x2] by simp
      ultimately have split: "events_since st st' =
          events_since st st1 @ [Print (Error ex)] @ events_since ?st2 st'" by simp
      have split': "events_since st st' =
          (events_since st st1 @ [Print (Error ex)]) @ events_since ?st2 st'"
        using split by simp
      have p: "pending None (events_since st st1 @ [Print (Error ex)]) = None"
        by (simp add: pending_append)
      have q: "\<forall>w. count_list (invoked_urls (events_since st st1 @ [Print (Error ex)])) w
            + count_list past w =
          count_list past1 w
            + count_list (failed_urls None (events_since st st1 @ [Print (Error ex)])) w"
        using t1 Some p1 by (simp add: invoked_urls_append failed_urls_append)
      from tally_seq[OF p q Cons.IH[OF run]] show ?thesis unfolding split' .
    next
      case None
      have run: "for_videos e vs past1 st1 = (st', past')"
        using Cons.prems v False tv None by simp
      have p1: "past1 = past @ [u]" using transfer_video_past[OF tv] None by simp
      have x3: "extends_by (sync_event past1) st1 st'" using for_videos_sync[OF run] by blast
      have split: "events_since st st' = events_since st st1 @ events_since st1 st'"
        using events_since_trans[OF x1 x3] .
      have p: "pending None (events_since st st1) = None" using t1 None by simp
      have q: "\<forall>w. count_list (invoked_urls (events_since st st1)) w
            + count_list past w =
          count_list past1 w + count_list (failed_urls None (events_since st st1)) w"
        using t1 p1 by simp
      from tally_seq[OF p q Cons.IH[OF run]] show ?thesis unfolding split .
    qed
  qed
qed

lemma for_channels_tally:
  "for_channels e cs past st = (st', past') \<Longrightarrow>
     pending None (events_since st st') = None \<and>
     (\<forall>u. count_list (invoked_urls (events_since st st')) u + count_list past u =
          count_list past' u + count_list (failed_urls None (events_since st st')) u)"
proof (induction cs arbitrary: past st)
  case Nil
  then show ?case by (simp add: events_since_def)
next
  case (Cons c cs)
  obtain st1 r where g: "get_latest_video_url e st c LAST_VIDEO_N = (st1, r)"
    by (cases "get_latest_video_url e st c LAST_VIDEO_N")
  have x1: "extends_by (sync_event past) st st1" using get_latest_sync[OF g] .
  note g1 = get_latest_tally[OF g, of None]
  show ?case
  proof (cases r)
    case (Failure msg)
    let ?st2 = "emit [Print (Error unpack_error)] st1"
    have run: "for_channels e cs past ?st2 = (st', past')" using Cons.prems g Failure by simp
    have x2: "extends_by (\<lambda>ev. True) st1 ?st2" by (rule extends_by_emit) simp
    have x3: "extends_by (sync_event past) ?st2 st'" using for_channels_sync[OF run] by blast
    have x12: "extends_by (\<lambda>ev. True) st ?st2"
      by (intro extends_by_emit_after extends_by_mono[OF x1]) simp_all
    have "events_since st st' = events_since st ?st2 @ events_since ?st2 st'"
      using events_since_trans[OF x12 x3] .
    moreover have "events_since st ?st2 = events_since st st1 @ [Print (Error unpack_error)]"
      using events_since_trans[OF x1 x2] by simp
    ultimately have split: "events_since st st' =
        events_since st st1 @ [Print (Error unpack_error)] @ events_since ?st2 st'" by simp
    have split': "events_since st st' =
        (events_since st st1 @ [Print (Error unpack_error)]) @ events_since ?st2 st'"
      using split by simp
    have p: "pending None (events_since st st1 @ [Print (Error unpack_error)]) = None"
      by (simp add: pending_append unpack_error_def)
    have q: "\<forall>w.
        count_list (invoked_urls (events_since st st1 @ [Print (Error unpack_error)])) w
          + count_list past w =
        count_list past w
          + count_list (failed_urls None (events_since st st1 @ [Print (Error unpack_error)])) w"
      using g1 by (simp add: invoked_urls_append failed_urls_append unpack_error_def)
    from tally_seq[OF p q Cons.IH[OF run]] show ?thesis unfolding split' .
  next
    case (Videos vs)
    obtain st2 past2 where fv: "for_videos e vs past st1 = (st2, past2)"
      by (cases "for_videos e vs past st1")
    have run: "for_channels e cs past2 st2 = (st', past')"
      using Cons.prems g Videos fv by (cases vs) auto
    have x2: "extends_by (sync_event past) st1 st2" using for_videos_sync[OF fv] by blast
    have x3: "extends_by (sync_event past2) st2 st'" using for_channels_sync[OF run] by blast
    have x12: "extends_by (sync_event past) st st2" using x1 x2 by (rule extends_by_trans)
    have split: "events_since st st' =
        events_since st st1 @ events_since st1 st2 @ events_since st2 st'"
      using events_since_trans[OF x12 x3] events_since_trans[OF x1 x2] by simp
    have p: "pending None (events_since st st1) = None" using g1 by simp
    have q: "\<forall>w. count_list (invoked_urls (events_since st st1)) w
          + count_list past w =
        count_list past w + count_list (failed_urls None (events_since st st1)) w"
      using g1 by simp
    have pq: "pending None (events_since st st1 @ events_since st1 st2) = None \<and>
       (\<forall>w. count_list (invoked_urls (events_since st st1 @ events_since st1 st2)) w
            + count_list past w =
          count_list past2 w
            + count_list (failed_urls None (events_since st st1 @ events_since st1 st2)) w)"
      using p q for_videos_tally[OF fv] by (rule tally_seq)
    have split': "events_since st st' =
        (events_since st st1 @ events_since st1 st2) @ events_since st2 st'"
      using split by simp
    from tally_seq[OF conjunct1[OF pq] conjunct2[OF pq] Cons.IH[OF run]]
    show ?thesis unfolding split' .
  qed
qed

lemma main_tally:
  assumes run: "main e st = (st', r)" and f: "past_videos_file st = Some past"
  shows "\<exists>new. past_videos_file st' = Some (past @ new) \<and> distinct new \<and>
           set new \<inter> set past = {} \<and>
           (\<forall>u. count_list (invoked_urls (events_since st st')) u =
                count_list new u + count_list (failed_urls None (events_since st st')) u)"
  using main_cases[OF run]
proof (elim disjE exE conjE)
  assume a: "extends_by setup_event st st'" "past_videos_file st' = past_videos_file st"
  from setup_tally[OF extends_by_events[OF a(1)], of None] a(2) f
  show ?thesis by (intro exI[of _ "[]"]) simp
next
  fix st1 i channels
  assume a: "extends_by setup_event st st1" "past_videos_file st1 = past_videos_file st"
    "sync_channels e channels (emit [Drive_get_media i (Inr channels)] st1) = (st', r)"
  let ?st2 = "emit [Drive_get_media i (Inr channels)] st1"
  let ?st3 = "emit [Read_history (Some past)] ?st2"
  have "past_videos_file ?st2 = Some past" using a(2) f by simp
  from sync_channels_cases[OF a(3) this] obtain s1 p1 where
    b: "for_channels e channels past ?st3 = (s1, p1)"
       "st' = emit [Write_history p1] (s1\<lparr>past_videos_file := Some p1\<rparr>)" by blast
  from for_channels_sync[OF b(1)] obtain new where
    x: "extends_by (sync_event past) ?st3 s1" and
    new: "p1 = past @ new" "distinct new" "set new \<inter> set past = {}" by blast
  from a(1) obtain A where A: "trace st1 = trace st @ A" "list_all setup_event A"
    by (rule extends_byE)
  from x obtain C where C: "trace s1 = trace ?st3 @ C" "events_since ?st3 s1 = C"
    by (rule extends_byE)
  have ev: "events_since st st' =
      A @ [Drive_get_media i (Inr channels), Read_history (Some past)] @ C @ [Write_history p1]"
    using A C b(2) by (simp add: events_since_def)
  note tA = setup_tally[OF A(2), of None]
  note tC = for_channels_tally[OF b(1), unfolded C(2)]
  have "\<forall>u. count_list (invoked_urls (events_since st st')) u =
                count_list new u + count_list (failed_urls None (events_since st st')) u"
    using tA tC new(1) unfolding ev
    by (simp add: invoked_urls_append failed_urls_append pending_append)
  moreover have "past_videos_file st' = Some (past @ new)" using b(2) new(1) by simp
  ultimately show ?thesis using new by blast
qed


lemma distinct_count_le: "distinct xs \<Longrightarrow> count_list xs x \<le> 1"
  by (induction xs) auto

lemma single_video_failed:
  assumes "u \<notin> set past"
  shows "invoked_urls (events_since st (fst (for_videos e [(u, t)] past st))) = [u] \<and>
         failed_urls None (events_since st (fst (for_videos e [(u, t)] past st))) =
           (if snd (snd (transfer_video e st past u t)) = None then [] else [u]) \<and>
         snd (for_videos e [(u, t)] past st) =
           (if snd (snd (transfer_video e st past u t)) = None then past @ [u] else past)"
proof -
  obtain st1 past1 r where tv: "transfer_video e st past u t = (st1, past1, r)"
    by (cases "transfer_video e st past u t")
  have x1: "extends_by (sync_event past) st st1" using transfer_video_sync[OF tv assms] .
  note t1 = transfer_video_tally[OF tv, of None]
  show ?thesis
  proof (cases r)
    case None
    then show ?thesis using tv assms t1 transfer_video_past[OF tv] by simp
  next
    case (Some ex)
    have x2: "extends_by (\<lambda>ev. True) st1 (emit [Print (Error ex)] st1)"
      by (rule extends_by_emit) simp
    have "events_since st (emit [Print (Error ex)] st1) = events_since st st1 @ [Print (Error ex)]"
      using events_since_trans[OF x1 x2] by simp
    then show ?thesis using tv assms t1 Some transfer_video_past[OF tv]
      by (simp add: failed_urls_append invoked_urls_append)
  qed
qed

text \<open>
  Claim C10, as amended. Within a run no URL is appended to the in-memory
  history more than once, and none that the list already holds, because the
  membership test reads the list as the run has updated it: the list at the end
  of the loops, and the list the run writes back, is the loaded list followed
  by distinct new URLs that were not in it, so a loaded history without
  duplicates is written back without duplicates. The Transfer Pipeline is
  invoked for a URL once for every failed transfer of that URL in the run, and
  once more if the run appends the URL: at most once for every URL none of
  whose transfers fails in the run, and more than once only for a URL whose
  transfer failed. A listed video whose URL the list does not hold is handed
  to the pipeline once; its URL is appended if the \<^verbatim>\<open>try\<close> body ends, and it is
  a failed transfer, the list unchanged, if the body raises.
\<close>

theorem transfers_once_unless_failed:
  "(\<exists>new. snd (for_channels e cs past st) = past @ new \<and> distinct new \<and>
        set new \<inter> set past = {} \<and>
        (\<forall>v. count_list (invoked_urls (events_since st (fst (for_channels e cs past st)))) v =
             count_list new v +
             count_list (failed_urls None (events_since st (fst (for_channels e cs past st)))) v) \<and>
        (\<forall>v. v \<notin> set (failed_urls None (events_since st (fst (for_channels e cs past st)))) \<longrightarrow>
             count_list (invoked_urls (events_since st (fst (for_channels e cs past st)))) v \<le> 1))
   \<and> (distinct past \<longrightarrow> distinct (snd (for_channels e cs past st)))
   \<and> (past_videos_file st = Some past \<longrightarrow>
        (\<exists>new. past_videos_file (fst (main e st)) = Some (past @ new) \<and> distinct new \<and>
           set new \<inter> set past = {} \<and>
           (distinct past \<longrightarrow> distinct (past @ new)) \<and>
           (\<forall>v. count_list (invoked_urls (events_since st (fst (main e st)))) v =
                count_list new v +
                count_list (failed_urls None (events_since st (fst (main e st)))) v) \<and>
           (\<forall>v. v \<notin> set (failed_urls None (events_since st (fst (main e st)))) \<longrightarrow>
                count_list (invoked_urls (events_since st (fst (main e st)))) v \<le> 1)))
   \<and> (u \<notin> set past \<longrightarrow>
        invoked_urls (events_since st (fst (for_videos e [(u, t)] past st))) = [u] \<and>
        failed_urls None (events_since st (fst (for_videos e [(u, t)] past st))) =
          (if snd (snd (transfer_video e st past u t)) = None then [] else [u]) \<and>
        snd (for_videos e [(u, t)] past st) =
          (if snd (snd (transfer_video e st past u t)) = None then past @ [u] else past))"
proof -
  have 1: "\<exists>new. snd (for_channels e cs past st) = past @ new \<and> distinct new \<and>
        set new \<inter> set past = {} \<and>
        (\<forall>v. count_list (invoked_urls (events_since st (fst (for_channels e cs past st)))) v =
             count_list new v +
             count_list (failed_urls None (events_since st (fst (for_channels e cs past st)))) v) \<and>
        (\<forall>v. v \<notin> set (failed_urls None (events_since st (fst (for_channels e cs past st)))) \<longrightarrow>
             count_list (invoked_urls (events_since st (fst (for_channels e cs past st)))) v \<le> 1)"
  proof -
    obtain st' past' where fc: "for_channels e cs past st = (st', past')"
      by (cases "for_channels e cs past st")
    from for_channels_sync[OF fc] obtain new where
      new: "past' = past @ new" "distinct new" "set new \<inter> set past = {}" by blast
    have eq: "count_list (invoked_urls (events_since st st')) v =
        count_list new v + count_list (failed_urls None (events_since st st')) v" for v
      using for_channels_tally[OF fc] new(1) by simp
    have le: "count_list (invoked_urls (events_since st st')) v \<le> 1"
      if "v \<notin> set (failed_urls None (events_since st st'))" for v
      using eq[of v] that distinct_count_le[OF new(2), of v] by simp
    show ?thesis using fc new eq le by auto
  qed
  have 2: "distinct (snd (for_channels e cs past st))" if "distinct past"
  proof -
    obtain st' past' where fc: "for_channels e cs past st = (st', past')"
      by (cases "for_channels e cs past st")
    from for_channels_sync[OF fc] that show ?thesis using fc by auto
  qed
  have 3: "\<exists>new. past_videos_file (fst (main e st)) = Some (past @ new) \<and> distinct new \<and>
           set new \<inter> set past = {} \<and>
           (distinct past \<longrightarrow> distinct (past @ new)) \<and>
           (\<forall>v. count_list (invoked_urls (events_since st (fst (main e st)))) v =
                count_list new v +
                count_list (failed_urls None (events_since st (fst (main e st)))) v) \<and>
           (\<forall>v. v \<notin> set (failed_urls None (events_since st (fst (main e st)))) \<longrightarrow>
                count_list (invoked_urls (events_since st (fst (main e st)))) v \<le> 1)"
    if f: "past_videos_file st = Some past"
  proof -
    obtain s r where run: "main e st = (s, r)" by (cases "main e st")
    from main_tally[OF run f] obtain new where
      new: "past_videos_file s = Some (past @ new)" "distinct new" "set new \<inter> set past = {}"
      and eq: "\<And>v. count_list (invoked_urls (events_since st s)) v =
                count_list new v + count_list (failed_urls None (events_since st s)) v"
      by blast
    have le: "count_list (invoked_urls (events_since st s)) v \<le> 1"
      if "v \<notin> set (failed_urls None (events_since st s))" for v
      using eq[of v] that distinct_count_le[OF new(2), of v] by simp
    have d: "distinct (past @ new)" if "distinct past" using that new(2,3) by auto
    show ?thesis using run new eq le d by auto
  qed
  show ?thesis using 1 2 3 single_video_failed[of u past st e t] by blast
qed

text \<open>
  Claim C10, the amended statement on the run of the concrete inputs: the third
  video is new, its transfer does not fail, and it is transferred once and
  appended once.
\<close>

theorem transfers_once_unless_failed_witness:
  "past_videos_file demo_state = Some [url_A, url_B] \<and> distinct [url_A, url_B]
   \<and> url_C \<notin> set [url_A, url_B]
   \<and> url_C \<notin> set (failed_urls None (events_since demo_state (fst (main demo_env demo_state))))
   \<and> past_videos_file (fst (main demo_env demo_state)) = Some ([url_A, url_B] @ [url_C])
   \<and> snd (for_channels demo_env [''UCa''] [url_A, url_B] demo_state) = [url_A, url_B] @ [url_C]
   \<and> distinct (snd (for_channels demo_env [''UCa''] [url_A, url_B] demo_state))
   \<and> count_list (invoked_urls (events_since demo_state (fst (main demo_env demo_state)))) url_C
        \<le> 1
   \<and> invoked_urls
        (events_since demo_state
           (fst (for_videos demo_env [(url_C, ''third'')] [url_A, url_B] demo_state))) = [url_C]
   \<and> failed_urls None
        (events_since demo_state
           (fst (for_videos demo_env [(url_C, ''third'')] [url_A, url_B] demo_state))) = []
   \<and> snd (for_videos demo_env [(url_C, ''third'')] [url_A, url_B] demo_state) =
        [url_A, url_B] @ [url_C]"
proof -
  have a: "past_videos_file demo_state = Some [url_A, url_B]" by (simp add: demo_state_def)
  have b: "distinct [url_A, url_B]" "url_C \<notin> set [url_A, url_B]"
    by (simp_all add: url_A_def url_B_def url_C_def)
  have c: "url_C \<notin> set (failed_urls None
      (events_since demo_state (fst (main demo_env demo_state))))"
    by (simp add: run_defs demo_defs)
  have d: "past_videos_file (fst (main demo_env demo_state)) = Some ([url_A, url_B] @ [url_C])"
    by (simp add: run_defs demo_defs)
  have e: "snd (for_channels demo_env [''UCa''] [url_A, url_B] demo_state) =
      [url_A, url_B] @ [url_C]"
    by (simp add: run_defs demo_defs)
  have f: "snd (snd (transfer_video demo_env demo_state [url_A, url_B] url_C ''third'')) = None"
    by (simp add: run_defs demo_defs)
  from transfers_once_unless_failed[of demo_env "[''UCa'']" "[url_A, url_B]" demo_state
      url_C "''third''"] a b c d e f
  show ?thesis by auto
qed

text \<open>
  Claim C10 as the spec states it fails: when the catalog names a channel twice
  and the video cannot be opened, the first transfer fails, the URL is not
  appended, and the same run invokes the Transfer Pipeline for that URL a
  second time.
\<close>

theorem transfer_invoked_twice_counterexample:
  "\<not> length (filter (invokes_transfer url_C)
        (events_since demo_state (fst (main failing_env demo_state)))) \<le> 1"
  by (simp add: run_defs demo_defs)

section \<open>The absent catalog\<close>

lemma setup_no_sync: "setup_event ev \<Longrightarrow> no_sync_event ev"
  by (simp add: no_sync_event_def setup_event_no_sync)

text \<open>
  C7. When the catalog loader returns absent (the search succeeded and the
  folder, after the sweep, holds no file named \<^verbatim>\<open>channels.json\<close>), \<^verbatim>\<open>main\<close>
  returns right after printing "No channels found": the history file is left
  as it was, and no event of the run reads or writes the history file, asks the
  resolver or takes a transfer step.
\<close>

theorem absent_catalog_ends_run:
  assumes "delete_old_videos e st 14 = (st1, None)"
    and "download_channels_list_from_drive e (print_now e st1) = (st2, Inr None)"
  shows "main e st = (emit [Print No_channels_found] st2, None)
     \<and> past_videos_file (fst (main e st)) = past_videos_file st
     \<and> list_all no_sync_event (events_since st (fst (main e st)))
     \<and> \<not> has_catalog st1
     \<and> (snd (download_channels_list_from_drive e s) = Inr None \<longleftrightarrow>
          drive_find_result e (trace s) = None \<and> \<not> has_catalog s)"
proof -
  have m: "main e st = (emit [Print No_channels_found] st2, None)"
    using assms by (simp add: main_def)
  from main_cases[OF m] have "extends_by setup_event st (emit [Print No_channels_found] st2) \<and>
      past_videos_file (emit [Print No_channels_found] st2) = past_videos_file st"
  proof (elim disjE exE conjE)
    fix s1 i channels
    assume a: "extends_by setup_event st s1"
      "sync_channels e channels (emit [Drive_get_media i (Inr channels)] s1) =
         (emit [Print No_channels_found] st2, None)"
    have "extends_by (\<lambda>ev. is_history_event ev \<or> (\<exists>past. sync_event past ev))
            (emit [Drive_get_media i (Inr channels)] s1) (emit [Print No_channels_found] st2)"
      using a(2) by (rule sync_channels_events) auto
    then obtain new where "trace st2 @ [Print No_channels_found] =
        (trace s1 @ [Drive_get_media i (Inr channels)]) @ new"
      "list_all (\<lambda>ev. is_history_event ev \<or> (\<exists>past. sync_event past ev)) new"
      by (rule extends_byE) simp
    then have False by (cases new rule: rev_cases) auto
    then show ?thesis ..
  qed simp
  then have f: "past_videos_file (fst (main e st)) = past_videos_file st"
    and ev: "list_all no_sync_event (events_since st (fst (main e st)))"
    using m extends_by_events[of setup_event st "emit [Print No_channels_found] st2"] setup_no_sync
    by (auto simp: list_all_iff)
  have "\<not> has_catalog (print_now e st1)"
    using loader_cases[OF assms(2)] by (simp add: has_catalog_def)
  then have c: "\<not> has_catalog st1" using print_now_setup[of st1 e] by (simp add: has_catalog_def)
  have d: "snd (download_channels_list_from_drive e s) = Inr None \<longleftrightarrow>
          drive_find_result e (trace s) = None \<and> \<not> has_catalog s"
    by (simp add: loader_absent_iff has_catalog_def)
  show ?thesis using m f ev c d by blast
qed

lemmas more_demo_defs = no_catalog_state_def older_file_def boundary_file_def
  us_per_second_def

theorem absent_catalog_ends_run_witness:
  "snd (delete_old_videos demo_env no_catalog_state 14) = None
   \<and> snd (download_channels_list_from_drive demo_env
            (print_now demo_env (fst (delete_old_videos demo_env no_catalog_state 14)))) = Inr None
   \<and> snd (main demo_env no_catalog_state) = None
   \<and> past_videos_file (fst (main demo_env no_catalog_state)) = Some [url_A, url_B]
   \<and> list_all no_sync_event (events_since no_catalog_state (fst (main demo_env no_catalog_state)))
   \<and> last (trace (fst (main demo_env no_catalog_state))) = Print No_channels_found"
proof -
  let ?sw = "delete_old_videos demo_env no_catalog_state 14"
  let ?ld = "download_channels_list_from_drive demo_env (print_now demo_env (fst ?sw))"
  have a: "snd ?sw = None" by (simp add: run_defs demo_defs more_demo_defs)
  then have a': "?sw = (fst ?sw, None)" by (metis prod.collapse)
  have b: "snd ?ld = Inr None" by (simp add: run_defs demo_defs more_demo_defs)
  then have b': "?ld = (fst ?ld, Inr None)" by (metis prod.collapse)
  have c: "past_videos_file no_catalog_state = Some [url_A, url_B]"
    by (simp add: no_catalog_state_def demo_state_def)
  note t = absent_catalog_ends_run[OF a' b', of no_catalog_state]
  from t have m: "main demo_env no_catalog_state = (emit [Print No_channels_found] (fst ?ld), None)"
    by blast
  from t have f: "past_videos_file (fst (main demo_env no_catalog_state)) =
      past_videos_file no_catalog_state" by blast
  from t have ev: "list_all no_sync_event
      (events_since no_catalog_state (fst (main demo_env no_catalog_state)))" by blast
  have l: "last (trace (fst (main demo_env no_catalog_state))) = Print No_channels_found"
    unfolding m by simp
  have n: "snd (main demo_env no_catalog_state) = None" unfolding m by simp
  show ?thesis using a b n f c ev l by simp
qed

section \<open>The sweeper and the catalog\<close>

lemmas crowd_defs = crowded_state_def small_state_def old_catalog_def recent_video_def

text \<open>On a clock that stands still the loop keeps every file that is not older.\<close>

lemma delete_loop_keeps:
  assumes "\<forall>tr. clock e tr = now" "\<bar>days\<bar> \<le> MAX_DELTA_DAYS"
    "0 \<le> now - days * us_per_day" "now - days * us_per_day \<le> DATETIME_MAX"
    "\<forall>f\<in>set items. \<not> older_than (createdTime f) now days"
  shows "delete_loop e days items st = (emit (replicate (length items) (Now now)) st, None)"
  using assms(5)
proof (induction items arbitrary: st)
  case Nil
  then show ?case by (simp add: emit_def)
next
  case (Cons item items)
  have "is_older_than_days e st (createdTime item) days = (emit [Now now] st, Inr False)"
    using assms(1-4) Cons.prems by (simp add: is_older_than_days_def Let_def)
  then show ?case using Cons by (simp add: emit_def)
qed

lemma crowded_sweep:
  "delete_old_videos demo_env crowded_state 14 =
     (emit (Drive_list (Inr (map recent_video [0..<100])) # replicate 100 (Now demo_now))
        crowded_state, None)"
proof -
  have l: "drive_list_result demo_env (trace crowded_state) (drive crowded_state) =
      Inr (map recent_video [0..<100])"
    by (simp add: demo_env_def crowded_state_def)
  have k: "delete_loop demo_env 14 (map recent_video [0..<100])
             (emit [Drive_list (Inr (map recent_video [0..<100]))] crowded_state) =
           (emit (replicate (length (map recent_video [0..<100])) (Now demo_now))
              (emit [Drive_list (Inr (map recent_video [0..<100]))] crowded_state), None)"
    by (rule delete_loop_keeps)
       (simp_all add: demo_env_def MAX_DELTA_DAYS_def DATETIME_MAX_def us_per_day_def
          demo_now_def older_than_def recent_video_def)
  show ?thesis unfolding delete_old_videos_def l using k by (simp add: emit_def)
qed

lemma crowded_run:
  "main demo_env crowded_state =
     (case download_channels_list_from_drive demo_env (print_now demo_env
        (emit (Drive_list (Inr (map recent_video [0..<100])) # replicate 100 (Now demo_now))
           crowded_state)) of
        (st2, Inl ex) \<Rightarrow> (st2, Some ex)
      | (st2, Inr None) \<Rightarrow> (emit [Print No_channels_found] st2, None)
      | (st2, Inr (Some channels)) \<Rightarrow> sync_channels demo_env channels st2)"
  unfolding main_def crowded_sweep by simp

text \<open>
  Claim C9. The spec has the sweeper list all files of the folder and decide
  for every one of them by its creation time alone, so that a catalog
  \<^verbatim>\<open>channels.json\<close> older than the threshold is deleted and the runs that follow
  do no sync. The code does not do this. \<^verbatim>\<open>delete_old_videos\<close> sends one
  \<^verbatim>\<open>files().list\<close> request, with no page size and no page token, and loops over
  the files of that one answer: a file that the first page does not hold is
  never looked at, whatever its age. In a folder of three recent videos and a
  catalog of fifteen days the run deletes the catalog and does no sync; in a
  folder of a hundred recent videos and the same catalog, where Drive answers
  with the first hundred files, no delete of the catalog is issued, the catalog
  is still in the folder after the run, and the run resolves the channel and
  transfers a video.
\<close>

theorem catalog_beyond_first_page_survives:
  "length (drive crowded_state) = 101
   \<and> old_catalog \<in> set (drive crowded_state)
   \<and> older_than (createdTime old_catalog) demo_now 14
   \<and> \<not> list_ex (is_delete_of (file_id old_catalog))
         (events_since crowded_state (fst (delete_old_videos demo_env crowded_state 14)))
   \<and> \<not> list_ex (is_delete_of (file_id old_catalog))
         (events_since crowded_state (fst (main demo_env crowded_state)))
   \<and> has_catalog (fst (main demo_env crowded_state))
   \<and> list_ex is_resolver_event (events_since crowded_state (fst (main demo_env crowded_state)))
   \<and> list_ex is_transfer_event (events_since crowded_state (fst (main demo_env crowded_state)))
   \<and> list_ex (is_delete_of (file_id old_catalog))
         (events_since small_state (fst (delete_old_videos demo_env small_state 14)))
   \<and> \<not> has_catalog (fst (main demo_env small_state))
   \<and> list_all no_sync_event (events_since small_state (fst (main demo_env small_state)))"
proof -
  have a: "length (drive crowded_state) = 101" "old_catalog \<in> set (drive crowded_state)"
    by (simp_all add: crowded_state_def)
  have b: "older_than (createdTime old_catalog) demo_now 14"
    by (simp add: crowd_defs demo_defs older_than_def us_per_day_def)
  have c: "\<not> list_ex (is_delete_of (file_id old_catalog))
         (events_since crowded_state (fst (delete_old_videos demo_env crowded_state 14)))"
    unfolding crowded_sweep
    by (simp add: events_since_def emit_def crowded_state_def demo_state_def list_ex_iff)
  have d: "\<not> list_ex (is_delete_of (file_id old_catalog))
         (events_since crowded_state (fst (main demo_env crowded_state)))"
    unfolding crowded_run by (simp add: run_defs demo_defs crowd_defs list_ex_iff)
  have e: "has_catalog (fst (main demo_env crowded_state))"
    unfolding crowded_run by (simp add: run_defs demo_defs crowd_defs has_catalog_def)
  have f: "list_ex is_resolver_event
         (events_since crowded_state (fst (main demo_env crowded_state)))"
    unfolding crowded_run by (simp add: run_defs demo_defs crowd_defs)
  have g: "list_ex is_transfer_event
         (events_since crowded_state (fst (main demo_env crowded_state)))"
    unfolding crowded_run by (simp add: run_defs demo_defs crowd_defs)
  have h: "list_ex (is_delete_of (file_id old_catalog))
         (events_since small_state (fst (delete_old_videos demo_env small_state 14)))"
    by (simp add: run_defs demo_defs crowd_defs upt_conv_Cons)
  have i: "\<not> has_catalog (fst (main demo_env small_state))"
    by (simp add: run_defs demo_defs crowd_defs has_catalog_def upt_conv_Cons)
  have j: "list_all no_sync_event (events_since small_state (fst (main demo_env small_state)))"
    by (simp add: run_defs demo_defs crowd_defs no_sync_event_def upt_conv_Cons)
  show ?thesis using a b c d e f g h i j by blast
qed

section \<open>Two runs in succession\<close>

lemma resolver_fixed:
  assumes "\<And>tr. channels_list_result e tr = cl" "\<And>tr. playlist_items_result e tr = pl"
  shows "snd (get_latest_video_url e s c n) =
     (if c = [] then Failure ''Could not extract channel identifier from URL''
      else case cl c of
             Inl ex \<Rightarrow> resolver_handler ex
           | Inr None \<Rightarrow> Failure (''No channel found with ID: '' @ c)
           | Inr (Some pid) \<Rightarrow>
               (case pl pid n of
                  Inl ex \<Rightarrow> resolver_handler ex
                | Inr items \<Rightarrow>
                    if items = [] then Failure ''Channel has no videos''
                    else if n \<le> length items then Videos (map video_of (take n items))
                    else Failure ''An unexpected error occurred: list index out of range''))"
  unfolding resolver_result assms ..

lemma for_videos_cover:
  "for_videos e vs past st = (st', past') \<Longrightarrow>
   list_all (\<lambda>ev. \<not> is_error_print ev) (events_since st st') \<Longrightarrow>
   fst ` set vs \<subseteq> set past'"
proof -
  assume run: "for_videos e vs past st = (st', past')"
    and ok: "list_all (\<lambda>ev. \<not> is_error_print ev) (events_since st st')"
  show ?thesis using run ok
  proof (induction vs arbitrary: past st)
    case Nil
    then show ?case by simp
  next
    case (Cons v vs)
    obtain u t where v: "v = (u, t)" by (cases v)
    show ?case
    proof (cases "u \<in> set past")
      case True
      let ?st1 = "emit [Print (Skipping t)] st"
      have run: "for_videos e vs past ?st1 = (st', past')" using Cons.prems(1) v True by simp
      have x1: "extends_by (\<lambda>ev. True) st ?st1" by (rule extends_by_emit) simp
      have x2: "extends_by (sync_event past) ?st1 st'" using for_videos_sync[OF run] by blast
      have "events_since st st' = [Print (Skipping t)] @ events_since ?st1 st'"
        using events_since_trans[OF x1 x2] by simp
      then have "list_all (\<lambda>ev. \<not> is_error_print ev) (events_since ?st1 st')"
        using Cons.prems(2) by simp
      from Cons.IH[OF run this] have "fst ` set vs \<subseteq> set past'" .
      moreover have "u \<in> set past'" using for_videos_sync[OF run] True by auto
      ultimately show ?thesis using v by simp
    next
      case False
      obtain st1 past1 r where tv: "transfer_video e st past u t = (st1, past1, r)"
        by (cases "transfer_video e st past u t")
      have x1: "extends_by (sync_event past) st st1" using transfer_video_sync[OF tv False] .
      show ?thesis
      proof (cases r)
        case (Some ex)
        let ?st2 = "emit [Print (Error ex)] st1"
        have run: "for_videos e vs past1 ?st2 = (st', past')"
          using Cons.prems(1) v False tv Some by simp
        have x2: "extends_by (\<lambda>ev. True) st1 ?st2" by (rule extends_by_emit) simp
        have x3: "extends_by (sync_event past1) ?st2 st'" using for_videos_sync[OF run] by blast
        have x12: "extends_by (\<lambda>ev. True) st ?st2"
          by (intro extends_by_emit_after extends_by_mono[OF x1]) simp_all
        have "events_since st st' = events_since st ?st2 @ events_since ?st2 st'"
          using events_since_trans[OF x12 x3] .
        moreover have "events_since st ?st2 = events_since st st1 @ [Print (Error ex)]"
          using events_since_trans[OF x1 x2] by simp
        ultimately have "\<not> list_all (\<lambda>ev. \<not> is_error_print ev) (events_since st st')" by simp
        then show ?thesis using Cons.prems(2) by simp
      next
        case None
        have run: "for_videos e vs past1 st1 = (st', past')"
          using Cons.prems(1) v False tv None by simp
        have x3: "extends_by (sync_event past1) st1 st'" using for_videos_sync[OF run] by blast
        have "events_since st st' = events_since st st1 @ events_since st1 st'"
          using events_since_trans[OF x1 x3] .
        then have "list_all (\<lambda>ev. \<not> is_error_print ev) (events_since st1 st')"
          using Cons.prems(2) by simp
        from Cons.IH[OF run this] have "fst ` set vs \<subseteq> set past'" .
        moreover have "past1 = past @ [u]" using transfer_video_past[OF tv] None by simp
        then have "u \<in> set past'" using for_videos_sync[OF run] by auto
        ultimately show ?thesis using v by simp
      qed
    qed
  qed
qed

lemma for_channels_cover:
  assumes ind: "\<And>s c. snd (get_latest_video_url e s c LAST_VIDEO_N) = R c"
  shows "for_channels e cs past st = (st', past') \<Longrightarrow>
   list_all (\<lambda>ev. \<not> is_error_print ev) (events_since st st') \<Longrightarrow>
   (\<forall>c\<in>set cs. \<forall>vs. R c = Videos vs \<longrightarrow> fst ` set vs \<subseteq> set past')"
proof (induction cs arbitrary: past st)
  case Nil
  then show ?case by simp
next
  case (Cons c cs)
  obtain st1 r where g: "get_latest_video_url e st c LAST_VIDEO_N = (st1, r)"
    by (cases "get_latest_video_url e st c LAST_VIDEO_N")
  have r: "r = R c" using ind[of st c] g by simp
  have x1: "extends_by (sync_event past) st st1" using get_latest_sync[OF g] .
  show ?case
  proof (cases r)
    case (Failure msg)
    let ?st2 = "emit [Print (Error unpack_error)] st1"
    have run: "for_channels e cs past ?st2 = (st', past')" using Cons.prems(1) g Failure by simp
    have x2: "extends_by (\<lambda>ev. True) st1 ?st2" by (rule extends_by_emit) simp
    have x3: "extends_by (sync_event past) ?st2 st'" using for_channels_sync[OF run] by blast
    have x12: "extends_by (\<lambda>ev. True) st ?st2"
      by (intro extends_by_emit_after extends_by_mono[OF x1]) simp_all
    have "events_since st st' = events_since st ?st2 @ events_since ?st2 st'"
      using events_since_trans[OF x12 x3] .
    moreover have "events_since st ?st2 = events_since st st1 @ [Print (Error unpack_error)]"
      using events_since_trans[OF x1 x2] by simp
    ultimately have "\<not> list_all (\<lambda>ev. \<not> is_error_print ev) (events_since st st')"
      by (simp add: unpack_error_def)
    then show ?thesis using Cons.prems(2) by simp
  next
    case (Videos vs)
    obtain st2 past2 where fv: "for_videos e vs past st1 = (st2, past2)"
      by (cases "for_videos e vs past st1")
    have run: "for_channels e cs past2 st2 = (st', past')"
      using Cons.prems(1) g Videos fv by (cases vs) auto
    have x2: "extends_by (sync_event past) st1 st2" using for_videos_sync[OF fv] by blast
    have x3: "extends_by (sync_event past2) st2 st'" using for_channels_sync[OF run] by blast
    have x12: "extends_by (sync_event past) st st2" using x1 x2 by (rule extends_by_trans)
    have "events_since st st' = events_since st st1 @ events_since st1 st2 @ events_since st2 st'"
      using events_since_trans[OF x12 x3] events_since_trans[OF x1 x2] by simp
    then have ok: "list_all (\<lambda>ev. \<not> is_error_print ev) (events_since st1 st2)"
      "list_all (\<lambda>ev. \<not> is_error_print ev) (events_since st2 st')"
      using Cons.prems(2) by simp_all
    have "fst ` set vs \<subseteq> set past2" using for_videos_cover[OF fv ok(1)] .
    moreover have "set past2 \<subseteq> set past'" using for_channels_sync[OF run] by auto
    ultimately have here: "fst ` set vs \<subseteq> set past'" by blast
    have "\<forall>ws. R c = Videos ws \<longrightarrow> fst ` set ws \<subseteq> set past'"
    proof (intro allI impI)
      fix ws assume "R c = Videos ws"
      then have "ws = vs" using r Videos by simp
      then show "fst ` set ws \<subseteq> set past'" using here by simp
    qed
    then show ?thesis using Cons.IH[OF run ok(2)] by simp
  qed
qed

lemma for_videos_idle:
  "fst ` set vs \<subseteq> set past \<Longrightarrow> for_videos e vs past st = (st', past') \<Longrightarrow>
     past' = past \<and> extends_by (\<lambda>ev. \<not> is_transfer_event ev) st st'"
proof (induction vs arbitrary: st)
  case Nil
  then show ?case by (simp add: extends_by_refl)
next
  case (Cons v vs)
  obtain u t where v: "v = (u, t)" by (cases v)
  have u: "u \<in> set past" using Cons.prems(1) v by simp
  let ?st1 = "emit [Print (Skipping t)] st"
  have run: "for_videos e vs past ?st1 = (st', past')" using Cons.prems(2) v u by simp
  have "fst ` set vs \<subseteq> set past" using Cons.prems(1) by simp
  from Cons.IH[OF this run] have "past' = past"
    "extends_by (\<lambda>ev. \<not> is_transfer_event ev) ?st1 st'" by simp_all
  moreover have "extends_by (\<lambda>ev. \<not> is_transfer_event ev) st ?st1"
    by (rule extends_by_emit) simp
  ultimately show ?case by (blast intro: extends_by_trans)
qed

lemma get_latest_idle:
  "get_latest_video_url e st c n = (st', r) \<Longrightarrow> extends_by (\<lambda>ev. \<not> is_transfer_event ev) st st'"
  by (auto simp: get_latest_video_url_def Let_def split: if_splits sum.splits option.splits list.splits
      intro!: extends_by_emit extends_by_emit_after extends_by_refl)

lemma for_channels_idle:
  assumes ind: "\<And>s c. snd (get_latest_video_url e s c LAST_VIDEO_N) = R c"
  shows "(\<forall>c\<in>set cs. \<forall>vs. R c = Videos vs \<longrightarrow> fst ` set vs \<subseteq> set past) \<Longrightarrow>
     for_channels e cs past st = (st', past') \<Longrightarrow>
     past' = past \<and> extends_by (\<lambda>ev. \<not> is_transfer_event ev) st st'"
proof (induction cs arbitrary: st)
  case Nil
  then show ?case by (simp add: extends_by_refl)
next
  case (Cons c cs)
  let ?P = "\<lambda>ev. \<not> is_transfer_event ev"
  obtain st1 r where g: "get_latest_video_url e st c LAST_VIDEO_N = (st1, r)"
    by (cases "get_latest_video_url e st c LAST_VIDEO_N")
  have r: "r = R c" using ind[of st c] g by simp
  have x1: "extends_by ?P st st1" using get_latest_idle[OF g] .
  have rest: "\<forall>c\<in>set cs. \<forall>vs. R c = Videos vs \<longrightarrow> fst ` set vs \<subseteq> set past"
    using Cons.prems(1) by simp
  show ?case
  proof (cases r)
    case (Failure msg)
    let ?st2 = "emit [Print (Error unpack_error)] st1"
    have run: "for_channels e cs past ?st2 = (st', past')" using Cons.prems(2) g Failure by simp
    have "extends_by ?P st ?st2" using x1 by (rule extends_by_emit_after) simp
    then show ?thesis using Cons.IH[OF rest run] by (blast intro: extends_by_trans)
  next
    case (Videos vs)
    have cov: "fst ` set vs \<subseteq> set past" using Cons.prems(1) r Videos by simp
    obtain st2 past2 where fv: "for_videos e vs past st1 = (st2, past2)"
      by (cases "for_videos e vs past st1")
    from for_videos_idle[OF cov fv] have p2: "past2 = past" and x2: "extends_by ?P st1 st2"
      by simp_all
    have run: "for_channels e cs past st2 = (st', past')"
      using Cons.prems(2) g Videos fv p2 by (cases vs) auto
    from Cons.IH[OF rest run] show ?thesis using x1 x2 by (blast intro: extends_by_trans)
  qed
qed


lemma main_loaded:
  assumes run: "main e st = (st', r)"
    and cat: "Drive_get_media i (Inr channels) \<in> set (events_since st st')"
  shows "\<exists>st1. extends_by setup_event st st1 \<and> past_videos_file st1 = past_videos_file st \<and>
           sync_channels e channels (emit [Drive_get_media i (Inr channels)] st1) = (st', r)"
  using main_cases[OF run]
proof (elim disjE exE conjE)
  assume "extends_by setup_event st st'"
  then have "setup_event (Drive_get_media i (Inr channels))"
    using cat extends_by_events[of setup_event st st'] by (auto simp: list_all_iff)
  then show ?thesis by simp
next
  fix s1 j ch
  let ?sA = "emit [Drive_get_media j (Inr ch)] s1"
  let ?Q = "\<lambda>ev. is_history_event ev \<or> (\<exists>past. sync_event past ev)"
  assume a: "extends_by setup_event st s1" "past_videos_file s1 = past_videos_file st"
    "sync_channels e ch ?sA = (st', r)"
  have x2: "extends_by (\<lambda>ev. True) s1 ?sA" by (rule extends_by_emit) simp
  have x3: "extends_by ?Q ?sA st'" using a(3) by (rule sync_channels_events) auto
  have x12: "extends_by (\<lambda>ev. True) st ?sA"
    by (intro extends_by_emit_after extends_by_mono[OF a(1)]) simp_all
  have "events_since st st' = events_since st ?sA @ events_since ?sA st'"
    using events_since_trans[OF x12 x3] .
  moreover have "events_since st ?sA = events_since st s1 @ [Drive_get_media j (Inr ch)]"
    using events_since_trans[OF a(1) x2] by simp
  ultimately have "Drive_get_media i (Inr channels) \<in>
      set (events_since st s1) \<union> {Drive_get_media j (Inr ch)} \<union> set (events_since ?sA st')"
    using cat by simp
  moreover have "Drive_get_media i (Inr channels) \<notin> set (events_since st s1)"
    using extends_by_events[OF a(1)] by (auto simp: list_all_iff)
  moreover have "Drive_get_media i (Inr channels) \<notin> set (events_since ?sA st')"
    using extends_by_events[OF x3] by (auto simp: list_all_iff)
  ultimately have "j = i \<and> ch = channels" by simp
  then show ?thesis using a by blast
qed

text \<open>
  C2. Two runs in succession. The resolver answers are the same throughout both
  runs (the upload lists are unchanged), both runs load the same catalog, and
  the first run completes successfully: it returns without an exception and
  prints no error. Then the second run returns without an exception, takes no
  transfer step, and writes back the history file with the content the first
  run persisted.
\<close>

theorem second_run_idempotent:
  assumes cl1: "\<And>tr. channels_list_result e1 tr = cl"
    and pl1: "\<And>tr. playlist_items_result e1 tr = pl"
    and cl2: "\<And>tr. channels_list_result e2 tr = cl"
    and pl2: "\<And>tr. playlist_items_result e2 tr = pl"
    and run1: "main e1 st = (st1, None)"
    and ok1: "list_all (\<lambda>ev. \<not> is_error_print ev) (events_since st st1)"
    and cat1: "Drive_get_media i1 (Inr channels) \<in> set (events_since st st1)"
    and run2: "main e2 st1 = (st2, r2)"
    and cat2: "Drive_get_media i2 (Inr channels) \<in> set (events_since st1 st2)"
  shows "r2 = None \<and> past_videos_file st2 = past_videos_file st1 \<and>
         (\<exists>h. past_videos_file st1 = Some h) \<and>
         list_all (\<lambda>ev. \<not> is_transfer_event ev) (events_since st1 st2)"
proof -
  let ?T = "\<lambda>ev. True"
  let ?N = "\<lambda>ev. \<not> is_transfer_event ev"
  define R where "R c = snd (get_latest_video_url e1 st c LAST_VIDEO_N)" for c
  have ind1: "snd (get_latest_video_url e1 s c LAST_VIDEO_N) = R c" for s c
    unfolding R_def resolver_fixed[of e1 cl pl, OF cl1 pl1] ..
  have ind2: "snd (get_latest_video_url e2 s c LAST_VIDEO_N) = R c" for s c
    unfolding R_def resolver_fixed[of e1 cl pl, OF cl1 pl1] resolver_fixed[of e2 cl pl, OF cl2 pl2] ..
  \<comment> \<open>the first run\<close>
  from main_loaded[OF run1 cat1] obtain sA where
    A: "extends_by setup_event st sA" "past_videos_file sA = past_videos_file st"
       "sync_channels e1 channels (emit [Drive_get_media i1 (Inr channels)] sA) = (st1, None)"
    by blast
  let ?sA = "emit [Drive_get_media i1 (Inr channels)] sA"
  obtain past where past: "past_videos_file ?sA = Some past"
    using sync_channels_missing[OF A(3)] by (cases "past_videos_file ?sA") auto
  let ?sR = "emit [Read_history (Some past)] ?sA"
  from sync_channels_cases[OF A(3) past] obtain s1 p1 where
    B: "for_channels e1 channels past ?sR = (s1, p1)"
       "st1 = emit [Write_history p1] (s1\<lparr>past_videos_file := Some p1\<rparr>)" by blast
  have f1: "past_videos_file st1 = Some p1" using B(2) by simp
  have xR: "extends_by ?T st ?sR"
    by (intro extends_by_emit_after extends_by_mono[OF A(1)]) simp_all
  have x1: "extends_by (sync_event past) ?sR s1" using for_channels_sync[OF B(1)] by blast
  have xW: "extends_by ?T s1 st1" unfolding B(2) by (simp add: extends_by_emit)
  have xR1: "extends_by ?T st s1"
    using xR extends_by_mono[OF x1, of ?T] by (blast intro: extends_by_trans)
  have "events_since st st1 = events_since st ?sR @ events_since ?sR s1 @ events_since s1 st1"
    using events_since_trans[OF xR1 xW] events_since_trans[OF xR x1] by simp
  then have ok: "list_all (\<lambda>ev. \<not> is_error_print ev) (events_since ?sR s1)"
    using ok1 by simp
  have cov: "\<forall>c\<in>set channels. \<forall>vs. R c = Videos vs \<longrightarrow> fst ` set vs \<subseteq> set p1"
    using for_channels_cover[of e1 R, OF ind1 B(1) ok] .
  \<comment> \<open>the second run\<close>
  from main_loaded[OF run2 cat2] obtain sB where
    C: "extends_by setup_event st1 sB" "past_videos_file sB = past_videos_file st1"
       "sync_channels e2 channels (emit [Drive_get_media i2 (Inr channels)] sB) = (st2, r2)"
    by blast
  let ?sB = "emit [Drive_get_media i2 (Inr channels)] sB"
  have fB: "past_videos_file ?sB = Some p1" using C(2) f1 by simp
  let ?sR2 = "emit [Read_history (Some p1)] ?sB"
  from sync_channels_cases[OF C(3) fB] obtain s2 p2 where
    D: "for_channels e2 channels p1 ?sR2 = (s2, p2)"
       "st2 = emit [Write_history p2] (s2\<lparr>past_videos_file := Some p2\<rparr>)" "r2 = None" by blast
  from for_channels_idle[of e2 R, OF ind2 cov D(1)] have
    E: "p2 = p1" "extends_by ?N ?sR2 s2" by simp_all
  have "extends_by ?N st1 sB"
    using C(1) by (rule extends_by_mono) (simp add: setup_event_no_sync)
  then have "extends_by ?N st1 ?sR2"
    by (intro extends_by_emit_after) simp_all
  then have "extends_by ?N st1 s2" using E(2) by (rule extends_by_trans)
  then have "extends_by ?N st1 st2" unfolding D(2) by (simp add: extends_by_emit_after)
  then have "list_all ?N (events_since st1 st2)" by (rule extends_by_events)
  moreover have "past_videos_file st2 = past_videos_file st1" using D(2) E(1) f1 by simp
  ultimately show ?thesis using D(3) f1 by simp
qed


theorem second_run_idempotent_witness:
  "snd (main demo_env demo_state) = None
   \<and> list_all (\<lambda>ev. \<not> is_error_print ev)
         (events_since demo_state (fst (main demo_env demo_state)))
   \<and> Drive_get_media ''f0'' (Inr [''UCa''])
         \<in> set (events_since demo_state (fst (main demo_env demo_state)))
   \<and> Drive_get_media ''f0'' (Inr [''UCa''])
         \<in> set (events_since (fst (main demo_env demo_state))
                  (fst (main demo_env (fst (main demo_env demo_state)))))
   \<and> past_videos_file (fst (main demo_env demo_state)) = Some [url_A, url_B, url_C]
   \<and> snd (main demo_env (fst (main demo_env demo_state))) = None
   \<and> past_videos_file (fst (main demo_env (fst (main demo_env demo_state)))) =
       past_videos_file (fst (main demo_env demo_state))
   \<and> list_all (\<lambda>ev. \<not> is_transfer_event ev)
         (events_since (fst (main demo_env demo_state))
            (fst (main demo_env (fst (main demo_env demo_state)))))"
proof -
  let ?st1 = "fst (main demo_env demo_state)"
  let ?st2 = "fst (main demo_env ?st1)"
  let ?cl = "\<lambda>c. if c = ''UCa'' then Inr (Some ''UUa'') else (Inr None :: exn + string option)"
  let ?pl = "\<lambda>(p::string) (n::nat). (Inr demo_items :: exn + playlist_item list)"
  have cl: "\<And>tr. channels_list_result demo_env tr = ?cl" by (simp add: demo_env_def)
  have pl: "\<And>tr. playlist_items_result demo_env tr = ?pl" by (simp add: demo_env_def)
  have r1: "snd (main demo_env demo_state) = None" by (simp add: run_defs demo_defs)
  then have run1: "main demo_env demo_state = (?st1, None)" by (metis prod.collapse)
  have ok1: "list_all (\<lambda>ev. \<not> is_error_print ev) (events_since demo_state ?st1)"
    by (simp add: run_defs demo_defs)
  have cat1: "Drive_get_media ''f0'' (Inr [''UCa'']) \<in> set (events_since demo_state ?st1)"
    by (simp add: run_defs demo_defs)
  have run2: "main demo_env ?st1 = (?st2, snd (main demo_env ?st1))" by simp
  have cat2: "Drive_get_media ''f0'' (Inr [''UCa'']) \<in> set (events_since ?st1 ?st2)"
    by (simp add: run_defs demo_defs)
  have h: "past_videos_file ?st1 = Some [url_A, url_B, url_C]"
    by (simp add: run_defs demo_defs)
  from second_run_idempotent[of demo_env ?cl ?pl demo_env, OF cl pl cl pl run1 ok1 cat1 run2 cat2]
    r1 ok1 cat1 cat2 h
  show ?thesis by simp
qed

end
